theory Spec2Isabelle
  imports Main "HOL-Library.Word"
begin

section \<open>Values, integers and text\<close>

text \<open>
  Bound values have Go type \<open>any\<close>. The code inspects them only in \<open>formatValue\<close>,
  which distinguishes strings, nil and booleans and prints every other value with
  \<open>%v\<close>; integers stand for those other values here (\<open>VInt\<close> carries the value of
  an integer of any width, printed in decimal).
\<close>

datatype val = VNil | VBool bool | VStr string | VInt int

text \<open>
  Offsets and counters are Go \<open>int\<close>s: 64-bit two's complement words, whose \<open>+\<close> and
  \<open>-\<close> wrap around. \<open>fmt_d\<close> is the verb \<open>%d\<close> of \<open>fmt.Sprintf\<close> on an
  \<open>int\<close>: the signed decimal numeral.
\<close>

type_synonym goint = "64 word"

definition isDigit :: "char \<Rightarrow> bool" where
  "isDigit c = (c \<in> set ''0123456789'')"

definition isWord :: "char \<Rightarrow> bool" where
  "isWord c = (c \<in> set ''0123456789ABCDEFGHIJKLMNOPQRSTUVWXYZ_abcdefghijklmnopqrstuvwxyz'')"

fun showNat :: "nat \<Rightarrow> string" where
  "showNat n = (if n < 10 then [''0123456789'' ! n]
                else showNat (n div 10) @ [''0123456789'' ! (n mod 10)])"

declare showNat.simps [simp del]

definition showInt :: "int \<Rightarrow> string" where
  "showInt i = (if i < 0 then CHR ''-'' # showNat (nat (- i)) else showNat (nat i))"

definition fmt_d :: "goint \<Rightarrow> string" where
  "fmt_d w = showInt (sint w)"

text \<open>
  \<open>strconv.Atoi\<close> on a string of decimal digits (the only strings the code passes to
  it): the pair of the value and of whether an error is returned. A number above
  \<open>2^63 - 1\<close> gives the largest \<open>int\<close> together with a range error; the empty string
  and a string with another character give 0 and a syntax error (signs are not modelled).
\<close>

definition digit_val :: "char \<Rightarrow> nat" where
  "digit_val c = of_char c - 48"

definition digits_val :: "string \<Rightarrow> nat" where
  "digits_val ds = foldl (\<lambda>a d. 10 * a + digit_val d) 0 ds"

definition Atoi :: "string \<Rightarrow> goint \<times> bool" where
  "Atoi s = (if s = [] \<or> \<not> list_all isDigit s then (0, True)
             else if digits_val s > 2 ^ 63 - 1 then (2 ^ 63 - 1, True)
             else (of_nat (digits_val s), False))"

text \<open>\<open>strings.Join\<close>: the elements separated by \<open>sep\<close>.\<close>

fun Join :: "string list \<Rightarrow> string \<Rightarrow> string" where
  "Join [] sep = []"
| "Join [x] sep = x"
| "Join (x # y # ys) sep = x @ sep @ Join (y # ys) sep"

section \<open>Regular expressions\<close>

text \<open>
  The three regular expressions of the code (a dollar sign followed by one or more
  decimal digits, in \<open>placeholderRe\<close>; an at sign followed by one or more word
  characters, in \<open>namedParamRe\<close> and \<open>debugParamRe\<close>) have the shape: one fixed
  character followed by a longest non-empty run of characters of a class (the digits
  \<open>[0-9]\<close>, the word characters \<open>[0-9A-Za-z_]\<close>). A regular expression is
  therefore the pair of the character and the class. \<open>findAll\<close> scans a text from the
  left and cuts it into the successive non-overlapping matches (\<open>Match\<close>, holding the
  whole matched text) and the characters in between (\<open>Lit\<close>);
  \<open>ReplaceAllStringFunc\<close> copies the characters and replaces every match by the result
  of the function, called on the matches from left to right. The function may update
  variables of the enclosing Go function; they are the state \<open>'s\<close> it takes and returns.
\<close>

datatype seg = Lit char | Match string

type_synonym regexp = "char \<times> (char \<Rightarrow> bool)"

function findAll :: "char \<Rightarrow> (char \<Rightarrow> bool) \<Rightarrow> string \<Rightarrow> seg list" where
  "findAll sg cls [] = []"
| "findAll sg cls (c # cs) =
     (if c = sg \<and> takeWhile cls cs \<noteq> []
      then Match (c # takeWhile cls cs) # findAll sg cls (dropWhile cls cs)
      else Lit c # findAll sg cls cs)"
  by pat_completeness auto
termination
  by (relation "measure (\<lambda>(sg, cls, s). length s)")
     (auto simp: length_dropWhile_le le_imp_less_Suc)

fun replaceSegs :: "(string \<Rightarrow> 's \<Rightarrow> string \<times> 's) \<Rightarrow> seg list \<Rightarrow> 's \<Rightarrow> string \<times> 's" where
  "replaceSegs repl [] st = ([], st)"
| "replaceSegs repl (Lit c # segs) st =
     (let (out, st') = replaceSegs repl segs st in (c # out, st'))"
| "replaceSegs repl (Match m # segs) st =
     (let (r, st1) = repl m st;
          (out, st2) = replaceSegs repl segs st1
      in (r @ out, st2))"

definition ReplaceAllStringFunc :: "regexp \<Rightarrow> string \<Rightarrow> (string \<Rightarrow> 's \<Rightarrow> string \<times> 's) \<Rightarrow> 's \<Rightarrow> string \<times> 's" where
  "ReplaceAllStringFunc re src repl st = replaceSegs repl (findAll (fst re) (snd re) src) st"

definition placeholderRe :: regexp where
  "placeholderRe = (CHR ''$'', isDigit)"

section \<open>Positional predicates\<close>

text \<open>
  The implementations of the interface \<open>Predicate\<close> of the positional variant, one
  constructor per struct type; the public constructors \<open>Raw\<close>, \<open>Eq\<close>, \<open>Neq\<close>, \<open>Gt\<close>,
  \<open>Gte\<close>, \<open>Lt\<close>, \<open>Lte\<close>, \<open>Like\<close>, \<open>ILike\<close>, \<open>In\<close>, \<open>Between\<close>, \<open>IsNull\<close>,
  \<open>IsNotNull\<close>, \<open>And\<close>, \<open>Or\<close> and \<open>Not\<close> only build the struct from their arguments.
  The type parameter is the type of the two fields of type \<open>[]any\<close> (the arguments of
  \<open>Raw\<close> and the values of \<open>In\<close>): the list of their elements in \<open>Predicate\<close>.
  \<open>ToSQL p offset\<close> returns the SQL fragment, the arguments and the new offset.
  \<open>rawRepl\<close> is the function literal of \<open>rawPred.ToSQL\<close>; it drops the error of
  \<open>Atoi\<close>. \<open>combineLoop\<close> is the \<open>for\<close> loop of \<open>combinePredicates\<close> with its
  variables \<open>parts\<close>, \<open>allArgs\<close> and \<open>cur\<close>.
\<close>

datatype 'a PredicateOf =
    rawPred string 'a
  | eqPred string val
  | neqPred string val
  | gtPred string val
  | gtePred string val
  | ltPred string val
  | ltePred string val
  | likePred string string
  | ilikePred string string
  | inPred string 'a
  | betweenPred string val val
  | isNullPred string
  | isNotNullPred string
  | andPred "'a PredicateOf list"
  | orPred "'a PredicateOf list"
  | notPred "'a PredicateOf"

type_synonym Predicate = "val list PredicateOf"

definition rawRepl :: "goint \<Rightarrow> string \<Rightarrow> unit \<Rightarrow> string \<times> unit" where
  "rawRepl offset match u = (let n = fst (Atoi (drop 1 match)) in (''$'' @ fmt_d (n + offset - 1), u))"

fun ToSQL :: "Predicate \<Rightarrow> goint \<Rightarrow> string \<times> val list \<times> goint"
and combinePredicates :: "Predicate list \<Rightarrow> string \<Rightarrow> goint \<Rightarrow> string \<times> val list \<times> goint"
and combineLoop :: "Predicate list \<Rightarrow> string list \<Rightarrow> val list \<Rightarrow> goint \<Rightarrow> string list \<times> val list \<times> goint"
where
  "ToSQL (rawPred sql args) offset =
     (fst (ReplaceAllStringFunc placeholderRe sql (rawRepl offset) ()), args, offset + of_nat (length args))"
| "ToSQL (eqPred col v) offset = (col @ '' = $'' @ fmt_d offset, [v], offset + 1)"
| "ToSQL (neqPred col v) offset = (col @ '' != $'' @ fmt_d offset, [v], offset + 1)"
| "ToSQL (gtPred col v) offset = (col @ '' > $'' @ fmt_d offset, [v], offset + 1)"
| "ToSQL (gtePred col v) offset = (col @ '' >= $'' @ fmt_d offset, [v], offset + 1)"
| "ToSQL (ltPred col v) offset = (col @ '' < $'' @ fmt_d offset, [v], offset + 1)"
| "ToSQL (ltePred col v) offset = (col @ '' <= $'' @ fmt_d offset, [v], offset + 1)"
| "ToSQL (likePred col pattern) offset = (col @ '' LIKE $'' @ fmt_d offset, [VStr pattern], offset + 1)"
| "ToSQL (ilikePred col pattern) offset = (col @ '' ILIKE $'' @ fmt_d offset, [VStr pattern], offset + 1)"
| "ToSQL (inPred col vals) offset =
     (let placeholders = map (\<lambda>i. ''$'' @ fmt_d (offset + of_nat i)) [0..<length vals]
      in (col @ '' IN ('' @ Join placeholders '', '' @ '')'', vals, offset + of_nat (length vals)))"
| "ToSQL (betweenPred col low high) offset =
     (col @ '' BETWEEN $'' @ fmt_d offset @ '' AND $'' @ fmt_d (offset + 1), [low, high], offset + 2)"
| "ToSQL (isNullPred col) offset = (col @ '' IS NULL'', [], offset)"
| "ToSQL (isNotNullPred col) offset = (col @ '' IS NOT NULL'', [], offset)"
| "ToSQL (andPred preds) offset = combinePredicates preds ''AND'' offset"
| "ToSQL (orPred preds) offset = combinePredicates preds ''OR'' offset"
| "ToSQL (notPred pred) offset =
     (let (sql, args, newOffset) = ToSQL pred offset
      in (''NOT ('' @ sql @ '')'', args, newOffset))"
| "combinePredicates [] op offset = ('''', [], offset)"
| "combinePredicates [p] op offset = ToSQL p offset"
| "combinePredicates (p # q # ps) op offset =
     (let (parts, allArgs, cur) = combineLoop (p # q # ps) [] [] offset
      in (''('' @ Join parts ('' '' @ op @ '' '') @ '')'', allArgs, cur))"
| "combineLoop [] parts allArgs cur = (parts, allArgs, cur)"
| "combineLoop (p # ps) parts allArgs cur =
     (let (sql, args, next) = ToSQL p cur
      in combineLoop ps (parts @ [sql]) (allArgs @ args) next)"

section \<open>Positional statement builders\<close>

text \<open>
  The builders are records of their fields (prefixed with the initial of the builder);
  the type parameter is the type of predicates, so that the chain methods, which are the
  same in the positional and the named variant, are shared. A chain method takes the
  builder, updates a field and returns the builder. The pointers \<open>limit\<close> and
  \<open>offset\<close> are options. In \<open>Build\<close> the string builder \<open>sb\<close>, the argument slice
  \<open>args\<close> and the cursor \<open>offset\<close> are locals, rebound step by step in source order.
\<close>

datatype JoinType = InnerJoinType | LeftJoinType | RightJoinType | FullJoinType

fun JoinType_String :: "JoinType \<Rightarrow> string" where
  "JoinType_String LeftJoinType = ''LEFT JOIN''"
| "JoinType_String RightJoinType = ''RIGHT JOIN''"
| "JoinType_String FullJoinType = ''FULL JOIN''"
| "JoinType_String InnerJoinType = ''INNER JOIN''"

datatype OrderDir = Asc | Desc

definition OrderDir_String :: "OrderDir \<Rightarrow> string" where
  "OrderDir_String d = (if d = Desc then ''DESC'' else ''ASC'')"

record join =
  joinType :: JoinType
  j_table :: string
  j_left :: string
  j_right :: string

record orderBy =
  o_col :: string
  o_dir :: OrderDir

record 'p SelectBuilder =
  s_distinct :: bool
  s_fields :: "string list"
  s_from :: string
  s_joins :: "join list"
  s_where :: "'p list"
  s_groupBy :: "string list"
  s_having :: "'p list"
  s_orderBy :: "orderBy list"
  s_limit :: "goint option"
  s_offset :: "goint option"

definition Select :: "string list \<Rightarrow> 'p SelectBuilder" where
  "Select fs = \<lparr>s_distinct = False, s_fields = fs, s_from = [], s_joins = [],
     s_where = [], s_groupBy = [], s_having = [], s_orderBy = [], s_limit = None, s_offset = None\<rparr>"

definition Distinct :: "'p SelectBuilder \<Rightarrow> 'p SelectBuilder" where
  "Distinct b = b\<lparr>s_distinct := True\<rparr>"

definition From :: "string \<Rightarrow> 'p SelectBuilder \<Rightarrow> 'p SelectBuilder" where
  "From t b = b\<lparr>s_from := t\<rparr>"

definition InnerJoin :: "string \<Rightarrow> string \<Rightarrow> string \<Rightarrow> 'p SelectBuilder \<Rightarrow> 'p SelectBuilder" where
  "InnerJoin t l r b = b\<lparr>s_joins := s_joins b @ [\<lparr>joinType = InnerJoinType, j_table = t, j_left = l, j_right = r\<rparr>]\<rparr>"

definition LeftJoin :: "string \<Rightarrow> string \<Rightarrow> string \<Rightarrow> 'p SelectBuilder \<Rightarrow> 'p SelectBuilder" where
  "LeftJoin t l r b = b\<lparr>s_joins := s_joins b @ [\<lparr>joinType = LeftJoinType, j_table = t, j_left = l, j_right = r\<rparr>]\<rparr>"

definition RightJoin :: "string \<Rightarrow> string \<Rightarrow> string \<Rightarrow> 'p SelectBuilder \<Rightarrow> 'p SelectBuilder" where
  "RightJoin t l r b = b\<lparr>s_joins := s_joins b @ [\<lparr>joinType = RightJoinType, j_table = t, j_left = l, j_right = r\<rparr>]\<rparr>"

definition FullJoin :: "string \<Rightarrow> string \<Rightarrow> string \<Rightarrow> 'p SelectBuilder \<Rightarrow> 'p SelectBuilder" where
  "FullJoin t l r b = b\<lparr>s_joins := s_joins b @ [\<lparr>joinType = FullJoinType, j_table = t, j_left = l, j_right = r\<rparr>]\<rparr>"

definition Where :: "'p list \<Rightarrow> 'p SelectBuilder \<Rightarrow> 'p SelectBuilder" where
  "Where preds b = b\<lparr>s_where := s_where b @ preds\<rparr>"

definition GroupBy :: "string list \<Rightarrow> 'p SelectBuilder \<Rightarrow> 'p SelectBuilder" where
  "GroupBy cols b = b\<lparr>s_groupBy := s_groupBy b @ cols\<rparr>"

definition Having :: "'p list \<Rightarrow> 'p SelectBuilder \<Rightarrow> 'p SelectBuilder" where
  "Having preds b = b\<lparr>s_having := s_having b @ preds\<rparr>"

definition OrderBy :: "string \<Rightarrow> OrderDir \<Rightarrow> 'p SelectBuilder \<Rightarrow> 'p SelectBuilder" where
  "OrderBy c d b = b\<lparr>s_orderBy := s_orderBy b @ [\<lparr>o_col = c, o_dir = d\<rparr>]\<rparr>"

definition Limit :: "goint \<Rightarrow> 'p SelectBuilder \<Rightarrow> 'p SelectBuilder" where
  "Limit n b = b\<lparr>s_limit := Some n\<rparr>"

definition Offset :: "goint \<Rightarrow> 'p SelectBuilder \<Rightarrow> 'p SelectBuilder" where
  "Offset n b = b\<lparr>s_offset := Some n\<rparr>"

text \<open>
  \<open>writePredicates\<close> appends to the string builder and returns the offset and the
  arguments; \<open>writePredicatesFrom i\<close> is its loop from index \<open>i\<close>.
\<close>

fun writePredicatesFrom :: "nat \<Rightarrow> string \<Rightarrow> Predicate list \<Rightarrow> goint \<Rightarrow> val list \<Rightarrow> string \<times> goint \<times> val list" where
  "writePredicatesFrom i sb [] offset args = (sb, offset, args)"
| "writePredicatesFrom i sb (p # ps) offset args =
     (let sb1 = (if i > 0 then sb @ '' AND '' else sb);
          (sql, pArgs, newOffset) = ToSQL p offset
      in writePredicatesFrom (Suc i) (sb1 @ sql) ps newOffset (args @ pArgs))"

definition writePredicates :: "string \<Rightarrow> Predicate list \<Rightarrow> goint \<Rightarrow> val list \<Rightarrow> string \<times> goint \<times> val list" where
  "writePredicates sb preds offset args = writePredicatesFrom 0 sb preds offset args"

definition writeJoin :: "string \<Rightarrow> join \<Rightarrow> string" where
  "writeJoin sb j = sb @ '' '' @ JoinType_String (joinType j) @ '' '' @ j_table j @ '' ON '' @ j_left j @ '' = '' @ j_right j"

definition SelectBuilder_Build :: "Predicate SelectBuilder \<Rightarrow> string \<times> val list" where
  "SelectBuilder_Build b =
     (let sb = (if s_distinct b then ''SELECT DISTINCT '' else ''SELECT '');
          sb = sb @ Join (s_fields b) '', '';
          sb = sb @ '' FROM '';
          sb = sb @ s_from b;
          sb = foldl writeJoin sb (s_joins b);
          (sb, offset, args) =
            (if length (s_where b) > 0
             then writePredicates (sb @ '' WHERE '') (s_where b) 1 []
             else (sb, 1, []));
          sb = (if length (s_groupBy b) > 0
                then sb @ '' GROUP BY '' @ Join (s_groupBy b) '', '' else sb);
          (sb, offset, args) =
            (if length (s_having b) > 0
             then writePredicates (sb @ '' HAVING '') (s_having b) offset args
             else (sb, offset, args));
          sb = (if length (s_orderBy b) > 0
                then sb @ '' ORDER BY '' @
                     Join (map (\<lambda>ob. o_col ob @ '' '' @ OrderDir_String (o_dir ob)) (s_orderBy b)) '', ''
                else sb);
          (sb, offset, args) =
            (case s_limit b of
               Some n \<Rightarrow> (sb @ '' LIMIT $'' @ fmt_d offset, offset + 1, args @ [VInt (sint n)])
             | None \<Rightarrow> (sb, offset, args));
          (sb, offset, args) =
            (case s_offset b of
               Some n \<Rightarrow> (sb @ '' OFFSET $'' @ fmt_d offset, offset + 1, args @ [VInt (sint n)])
             | None \<Rightarrow> (sb, offset, args))
      in (sb, args))"

record 'r InsertBuilder =
  i_table :: string
  i_columns :: "string list"
  i_values :: "'r list"
  i_onConflict :: string
  i_returning :: "string list"

definition InsertInto :: "string \<Rightarrow> 'r InsertBuilder" where
  "InsertInto t = \<lparr>i_table = t, i_columns = [], i_values = [], i_onConflict = [], i_returning = []\<rparr>"

definition Columns :: "string list \<Rightarrow> 'r InsertBuilder \<Rightarrow> 'r InsertBuilder" where
  "Columns cols b = b\<lparr>i_columns := cols\<rparr>"

definition Values :: "'r \<Rightarrow> 'r InsertBuilder \<Rightarrow> 'r InsertBuilder" where
  "Values vals b = b\<lparr>i_values := i_values b @ [vals]\<rparr>"

definition OnConflict :: "string \<Rightarrow> 'r InsertBuilder \<Rightarrow> 'r InsertBuilder" where
  "OnConflict action b = b\<lparr>i_onConflict := action\<rparr>"

definition InsertBuilder_Returning :: "string list \<Rightarrow> 'r InsertBuilder \<Rightarrow> 'r InsertBuilder" where
  "InsertBuilder_Returning cols b = b\<lparr>i_returning := cols\<rparr>"

fun insertRow :: "val list \<Rightarrow> string list \<Rightarrow> val list \<Rightarrow> goint \<Rightarrow> string list \<times> val list \<times> goint" where
  "insertRow [] placeholders args offset = (placeholders, args, offset)"
| "insertRow (v # vs) placeholders args offset =
     insertRow vs (placeholders @ [''$'' @ fmt_d offset]) (args @ [v]) (offset + 1)"

fun insertRows :: "nat \<Rightarrow> val list list \<Rightarrow> string \<Rightarrow> val list \<Rightarrow> goint \<Rightarrow> string \<times> val list \<times> goint" where
  "insertRows i [] sb args offset = (sb, args, offset)"
| "insertRows i (row # rows) sb args offset =
     (let sb = (if i > 0 then sb @ '', '' else sb);
          (placeholders, args, offset) = insertRow row [] args offset;
          sb = sb @ ''('' @ Join placeholders '', '' @ '')''
      in insertRows (Suc i) rows sb args offset)"

definition InsertBuilder_Build :: "val list InsertBuilder \<Rightarrow> string \<times> val list" where
  "InsertBuilder_Build b =
     (let sb = ''INSERT INTO '' @ i_table b;
          sb = (if length (i_columns b) > 0
                then sb @ '' ('' @ Join (i_columns b) '', '' @ '')'' else sb);
          sb = sb @ '' VALUES '';
          (sb, args, offset) = insertRows 0 (i_values b) sb [] 1;
          sb = (if i_onConflict b \<noteq> [] then sb @ '' ON CONFLICT '' @ i_onConflict b else sb);
          sb = (if length (i_returning b) > 0
                then sb @ '' RETURNING '' @ Join (i_returning b) '', '' else sb)
      in (sb, args))"

record setClause =
  sc_col :: string
  sc_val :: val

record 'p UpdateBuilder =
  u_table :: string
  u_sets :: "setClause list"
  u_where :: "'p list"
  u_returning :: "string list"

definition Update :: "string \<Rightarrow> 'p UpdateBuilder" where
  "Update t = \<lparr>u_table = t, u_sets = [], u_where = [], u_returning = []\<rparr>"

definition Set :: "string \<Rightarrow> val \<Rightarrow> 'p UpdateBuilder \<Rightarrow> 'p UpdateBuilder" where
  "Set c v b = b\<lparr>u_sets := u_sets b @ [\<lparr>sc_col = c, sc_val = v\<rparr>]\<rparr>"

definition UpdateBuilder_Where :: "'p list \<Rightarrow> 'p UpdateBuilder \<Rightarrow> 'p UpdateBuilder" where
  "UpdateBuilder_Where preds b = b\<lparr>u_where := u_where b @ preds\<rparr>"

definition UpdateBuilder_Returning :: "string list \<Rightarrow> 'p UpdateBuilder \<Rightarrow> 'p UpdateBuilder" where
  "UpdateBuilder_Returning cols b = b\<lparr>u_returning := cols\<rparr>"

fun updateSets :: "setClause list \<Rightarrow> string list \<Rightarrow> val list \<Rightarrow> goint \<Rightarrow> string list \<times> val list \<times> goint" where
  "updateSets [] setParts args offset = (setParts, args, offset)"
| "updateSets (s # ss) setParts args offset =
     updateSets ss (setParts @ [sc_col s @ '' = $'' @ fmt_d offset]) (args @ [sc_val s]) (offset + 1)"

definition UpdateBuilder_Build :: "Predicate UpdateBuilder \<Rightarrow> string \<times> val list" where
  "UpdateBuilder_Build b =
     (let sb = ''UPDATE '' @ u_table b @ '' SET '';
          (setParts, args, offset) = updateSets (u_sets b) [] [] 1;
          sb = sb @ Join setParts '', '';
          (sb, offset, args) =
            (if length (u_where b) > 0
             then writePredicates (sb @ '' WHERE '') (u_where b) offset args
             else (sb, offset, args));
          sb = (if length (u_returning b) > 0
                then sb @ '' RETURNING '' @ Join (u_returning b) '', '' else sb)
      in (sb, args))"

record 'p DeleteBuilder =
  d_table :: string
  d_where :: "'p list"
  d_returning :: "string list"

definition DeleteFrom :: "string \<Rightarrow> 'p DeleteBuilder" where
  "DeleteFrom t = \<lparr>d_table = t, d_where = [], d_returning = []\<rparr>"

definition DeleteBuilder_Where :: "'p list \<Rightarrow> 'p DeleteBuilder \<Rightarrow> 'p DeleteBuilder" where
  "DeleteBuilder_Where preds b = b\<lparr>d_where := d_where b @ preds\<rparr>"

definition DeleteBuilder_Returning :: "string list \<Rightarrow> 'p DeleteBuilder \<Rightarrow> 'p DeleteBuilder" where
  "DeleteBuilder_Returning cols b = b\<lparr>d_returning := cols\<rparr>"

definition DeleteBuilder_Build :: "Predicate DeleteBuilder \<Rightarrow> string \<times> val list" where
  "DeleteBuilder_Build b =
     (let sb = ''DELETE FROM '' @ d_table b;
          (sb, offset, args) =
            (if length (d_where b) > 0
             then writePredicates (sb @ '' WHERE '') (d_where b) 1 []
             else (sb, 1, []));
          sb = (if length (d_returning b) > 0
                then sb @ '' RETURNING '' @ Join (d_returning b) '', '' else sb)
      in (sb, args))"

text \<open>The interface \<open>Builder\<close> with its four implementations.\<close>

datatype Builder =
    SelectB "Predicate SelectBuilder"
  | InsertB "val list InsertBuilder"
  | UpdateB "Predicate UpdateBuilder"
  | DeleteB "Predicate DeleteBuilder"

fun Build :: "Builder \<Rightarrow> string \<times> val list" where
  "Build (SelectB b) = SelectBuilder_Build b"
| "Build (InsertB b) = InsertBuilder_Build b"
| "Build (UpdateB b) = UpdateBuilder_Build b"
| "Build (DeleteB b) = DeleteBuilder_Build b"

section \<open>Named predicates and statement builders\<close>

text \<open>
  The named variant of the same package: \<open>ToSQL\<close> takes a pointer to the counter and
  returns the fragment and a map of named arguments. The counter is passed in and
  returned; a map \<open>map[string]any\<close> is a partial function, a nil map the empty one.
  \<open>nextParam\<close> increments the counter and names the parameter \<open>p<counter>\<close>;
  \<open>mergeArgs dst src\<close> stores every entry of \<open>src\<close> in \<open>dst\<close>. \<open>cmpN\<close> is the common
  body of the eight comparison and pattern predicates, which differ in the operator
  only. The named variant has Select, Update and Delete builders. The type of the
  predicates is parameterised by the type that stands for a map of arguments: the map
  itself here, a reference into a store of maps further down.
\<close>

type_synonym namedArgs = "string \<rightharpoonup> val"

definition mergeArgs :: "namedArgs \<Rightarrow> namedArgs \<Rightarrow> namedArgs" where
  "mergeArgs dst src = dst ++ src"

definition nextParam :: "goint \<Rightarrow> goint \<times> string" where
  "nextParam counter = (counter + 1, ''p'' @ fmt_d (counter + 1))"

datatype 'm NamedPredicateOf =
    rawPredN string 'm
  | eqPredN string val
  | neqPredN string val
  | gtPredN string val
  | gtePredN string val
  | ltPredN string val
  | ltePredN string val
  | likePredN string string
  | ilikePredN string string
  | inPredN string "val list"
  | betweenPredN string val val
  | isNullPredN string
  | isNotNullPredN string
  | andPredN "'m NamedPredicateOf list"
  | orPredN "'m NamedPredicateOf list"
  | notPredN "'m NamedPredicateOf"

type_synonym NamedPredicate = "namedArgs NamedPredicateOf"

definition cmpN :: "string \<Rightarrow> string \<Rightarrow> val \<Rightarrow> goint \<Rightarrow> string \<times> namedArgs \<times> goint" where
  "cmpN col opr v counter =
     (let (counter, name) = nextParam counter
      in (col @ '' '' @ opr @ '' @'' @ name, [name \<mapsto> v], counter))"

fun inLoopN :: "val list \<Rightarrow> string list \<Rightarrow> namedArgs \<Rightarrow> goint \<Rightarrow> string list \<times> namedArgs \<times> goint" where
  "inLoopN [] placeholders args counter = (placeholders, args, counter)"
| "inLoopN (v # vs) placeholders args counter =
     (let (counter, name) = nextParam counter
      in inLoopN vs (placeholders @ [''@'' @ name]) (args(name \<mapsto> v)) counter)"

fun ToSQL_named :: "NamedPredicate \<Rightarrow> goint \<Rightarrow> string \<times> namedArgs \<times> goint"
and combinePredicates_named :: "NamedPredicate list \<Rightarrow> string \<Rightarrow> goint \<Rightarrow> string \<times> namedArgs \<times> goint"
and combineLoop_named :: "NamedPredicate list \<Rightarrow> string list \<Rightarrow> namedArgs \<Rightarrow> goint \<Rightarrow> string list \<times> namedArgs \<times> goint"
where
  "ToSQL_named (rawPredN sql args) counter = (sql, args, counter)"
| "ToSQL_named (eqPredN col v) counter = cmpN col ''='' v counter"
| "ToSQL_named (neqPredN col v) counter = cmpN col ''!='' v counter"
| "ToSQL_named (gtPredN col v) counter = cmpN col ''>'' v counter"
| "ToSQL_named (gtePredN col v) counter = cmpN col ''>='' v counter"
| "ToSQL_named (ltPredN col v) counter = cmpN col ''<'' v counter"
| "ToSQL_named (ltePredN col v) counter = cmpN col ''<='' v counter"
| "ToSQL_named (likePredN col pattern) counter = cmpN col ''LIKE'' (VStr pattern) counter"
| "ToSQL_named (ilikePredN col pattern) counter = cmpN col ''ILIKE'' (VStr pattern) counter"
| "ToSQL_named (inPredN col vals) counter =
     (let (placeholders, args, counter) = inLoopN vals [] Map.empty counter
      in (col @ '' IN ('' @ Join placeholders '', '' @ '')'', args, counter))"
| "ToSQL_named (betweenPredN col low high) counter =
     (let (counter, lowName) = nextParam counter;
          (counter, highName) = nextParam counter
      in (col @ '' BETWEEN @'' @ lowName @ '' AND @'' @ highName,
          [lowName \<mapsto> low, highName \<mapsto> high], counter))"
| "ToSQL_named (isNullPredN col) counter = (col @ '' IS NULL'', Map.empty, counter)"
| "ToSQL_named (isNotNullPredN col) counter = (col @ '' IS NOT NULL'', Map.empty, counter)"
| "ToSQL_named (andPredN preds) counter = combinePredicates_named preds ''AND'' counter"
| "ToSQL_named (orPredN preds) counter = combinePredicates_named preds ''OR'' counter"
| "ToSQL_named (notPredN pred) counter =
     (let (sql, args, counter) = ToSQL_named pred counter
      in (''NOT ('' @ sql @ '')'', args, counter))"
| "combinePredicates_named [] op counter = ([], Map.empty, counter)"
| "combinePredicates_named [p] op counter = ToSQL_named p counter"
| "combinePredicates_named (p # q # ps) op counter =
     (let (parts, allArgs, counter) = combineLoop_named (p # q # ps) [] Map.empty counter
      in (''('' @ Join parts ('' '' @ op @ '' '') @ '')'', allArgs, counter))"
| "combineLoop_named [] parts allArgs counter = (parts, allArgs, counter)"
| "combineLoop_named (p # ps) parts allArgs counter =
     (let (sql, args, counter) = ToSQL_named p counter
      in combineLoop_named ps (parts @ [sql]) (mergeArgs allArgs args) counter)"

fun writePredicatesFrom_named :: "nat \<Rightarrow> string \<Rightarrow> NamedPredicate list \<Rightarrow> goint \<Rightarrow> namedArgs \<Rightarrow> string \<times> goint \<times> namedArgs" where
  "writePredicatesFrom_named i sb [] counter args = (sb, counter, args)"
| "writePredicatesFrom_named i sb (p # ps) counter args =
     (let sb1 = (if i > 0 then sb @ '' AND '' else sb);
          (sql, pArgs, counter) = ToSQL_named p counter
      in writePredicatesFrom_named (Suc i) (sb1 @ sql) ps counter (mergeArgs args pArgs))"

definition writePredicates_named :: "string \<Rightarrow> NamedPredicate list \<Rightarrow> goint \<Rightarrow> namedArgs \<Rightarrow> string \<times> goint \<times> namedArgs" where
  "writePredicates_named sb preds counter args = writePredicatesFrom_named 0 sb preds counter args"

definition SelectBuilder_Build_named :: "NamedPredicate SelectBuilder \<Rightarrow> string \<times> namedArgs" where
  "SelectBuilder_Build_named b =
     (let sb = (if s_distinct b then ''SELECT DISTINCT '' else ''SELECT '');
          sb = sb @ Join (s_fields b) '', '';
          sb = sb @ '' FROM '';
          sb = sb @ s_from b;
          sb = foldl writeJoin sb (s_joins b);
          (sb, counter, args) =
            (if length (s_where b) > 0
             then writePredicates_named (sb @ '' WHERE '') (s_where b) 0 Map.empty
             else (sb, 0, Map.empty));
          sb = (if length (s_groupBy b) > 0
                then sb @ '' GROUP BY '' @ Join (s_groupBy b) '', '' else sb);
          (sb, counter, args) =
            (if length (s_having b) > 0
             then writePredicates_named (sb @ '' HAVING '') (s_having b) counter args
             else (sb, counter, args));
          sb = (if length (s_orderBy b) > 0
                then sb @ '' ORDER BY '' @
                     Join (map (\<lambda>ob. o_col ob @ '' '' @ OrderDir_String (o_dir ob)) (s_orderBy b)) '', ''
                else sb);
          (sb, counter, args) =
            (case s_limit b of
               Some n \<Rightarrow> (let (counter, name) = nextParam counter
                          in (sb @ '' LIMIT @'' @ name, counter, args(name \<mapsto> VInt (sint n))))
             | None \<Rightarrow> (sb, counter, args));
          (sb, counter, args) =
            (case s_offset b of
               Some n \<Rightarrow> (let (counter, name) = nextParam counter
                          in (sb @ '' OFFSET @'' @ name, counter, args(name \<mapsto> VInt (sint n))))
             | None \<Rightarrow> (sb, counter, args))
      in (sb, args))"

fun updateSets_named :: "setClause list \<Rightarrow> string list \<Rightarrow> namedArgs \<Rightarrow> goint \<Rightarrow> string list \<times> namedArgs \<times> goint" where
  "updateSets_named [] setParts args counter = (setParts, args, counter)"
| "updateSets_named (s # ss) setParts args counter =
     (let (counter, name) = nextParam counter
      in updateSets_named ss (setParts @ [sc_col s @ '' = @'' @ name]) (args(name \<mapsto> sc_val s)) counter)"

definition UpdateBuilder_Build_named :: "NamedPredicate UpdateBuilder \<Rightarrow> string \<times> namedArgs" where
  "UpdateBuilder_Build_named b =
     (let sb = ''UPDATE '' @ u_table b @ '' SET '';
          (setParts, args, counter) = updateSets_named (u_sets b) [] Map.empty 0;
          sb = sb @ Join setParts '', '';
          (sb, counter, args) =
            (if length (u_where b) > 0
             then writePredicates_named (sb @ '' WHERE '') (u_where b) counter args
             else (sb, counter, args));
          sb = (if length (u_returning b) > 0
                then sb @ '' RETURNING '' @ Join (u_returning b) '', '' else sb)
      in (sb, args))"

definition DeleteBuilder_Build_named :: "NamedPredicate DeleteBuilder \<Rightarrow> string \<times> namedArgs" where
  "DeleteBuilder_Build_named b =
     (let sb = ''DELETE FROM '' @ d_table b;
          (sb, counter, args) =
            (if length (d_where b) > 0
             then writePredicates_named (sb @ '' WHERE '') (d_where b) 0 Map.empty
             else (sb, 0, Map.empty));
          sb = (if length (d_returning b) > 0
                then sb @ '' RETURNING '' @ Join (d_returning b) '', '' else sb)
      in (sb, args))"

datatype NamedBuilder =
    SelectBN "NamedPredicate SelectBuilder"
  | UpdateBN "NamedPredicate UpdateBuilder"
  | DeleteBN "NamedPredicate DeleteBuilder"

fun Build_named :: "NamedBuilder \<Rightarrow> string \<times> namedArgs" where
  "Build_named (SelectBN b) = SelectBuilder_Build_named b"
| "Build_named (UpdateBN b) = UpdateBuilder_Build_named b"
| "Build_named (DeleteBN b) = DeleteBuilder_Build_named b"

section \<open>Debug inlining\<close>

text \<open>
  \<open>ReplaceAll\<close> is \<open>strings.ReplaceAll\<close> and \<open>ReplaceFirst s old new\<close> is
  \<open>strings.Replace(s, old, new, 1)\<close>, both for a non-empty \<open>old\<close>, as in all their
  calls here (for an empty \<open>old\<close> they return \<open>s\<close>). \<open>ToSQL_debug\<close> is the function
  \<open>ToSQL\<close> of the positional variant, with the loop \<open>inlineArgs\<close> running from the
  last argument down to the first; \<open>ToSQL_debug_named\<close> is the one of the named variant,
  with its function literal \<open>debugRepl\<close>.
\<close>

definition quote :: char where
  "quote = CHR 0x27"

function ReplaceAll :: "string \<Rightarrow> string \<Rightarrow> string \<Rightarrow> string" where
  "ReplaceAll [] old new = []"
| "ReplaceAll (c # cs) old new =
     (if old \<noteq> [] \<and> take (length old) (c # cs) = old
      then new @ ReplaceAll (drop (length old) (c # cs)) old new
      else c # ReplaceAll cs old new)"
  by pat_completeness auto
termination
  by (relation "measure (\<lambda>(s, old, new). length s)") auto

fun ReplaceFirst :: "string \<Rightarrow> string \<Rightarrow> string \<Rightarrow> string" where
  "ReplaceFirst [] old new = []"
| "ReplaceFirst (c # cs) old new =
     (if old \<noteq> [] \<and> take (length old) (c # cs) = old
      then new @ drop (length old) (c # cs)
      else c # ReplaceFirst cs old new)"

fun formatValue :: "val \<Rightarrow> string" where
  "formatValue (VStr s) = [quote] @ ReplaceAll s [quote] [quote, quote] @ [quote]"
| "formatValue VNil = ''NULL''"
| "formatValue (VBool b) = (if b then ''TRUE'' else ''FALSE'')"
| "formatValue (VInt i) = showInt i"

fun inlineArgs :: "nat \<Rightarrow> val list \<Rightarrow> string \<Rightarrow> string" where
  "inlineArgs 0 args result = result"
| "inlineArgs (Suc i) args result =
     inlineArgs i args (ReplaceFirst result (''$'' @ fmt_d (of_nat i + 1)) (formatValue (args ! i)))"

definition ToSQL_debug :: "Builder \<Rightarrow> string" where
  "ToSQL_debug b = (let (query, args) = Build b in inlineArgs (length args) args query)"

definition debugParamRe :: regexp where
  "debugParamRe = (CHR ''@'', isWord)"

definition debugRepl :: "namedArgs \<Rightarrow> string \<Rightarrow> unit \<Rightarrow> string \<times> unit" where
  "debugRepl args match u =
     (let name = drop 1 match
      in case args name of Some v \<Rightarrow> (formatValue v, u) | None \<Rightarrow> (match, u))"

definition ToSQL_debug_named :: "NamedBuilder \<Rightarrow> string" where
  "ToSQL_debug_named b =
     (let (query, args) = Build_named b
      in fst (ReplaceAllStringFunc debugParamRe query (debugRepl args) ()))"

section \<open>Named to positional conversion\<close>

text \<open>
  \<open>namedToPositional\<close>: the function literal \<open>n2pRepl\<close> reads and updates the locals
  \<open>seen\<close>, \<open>args\<close> and \<open>counter\<close>; \<open>named[name]\<close> is nil for a name without entry
  (\<open>lookupArg\<close>).
\<close>

definition namedParamRe :: regexp where
  "namedParamRe = (CHR ''@'', isWord)"

type_synonym n2pState = "(string \<rightharpoonup> goint) \<times> val list \<times> goint"

definition lookupArg :: "namedArgs \<Rightarrow> string \<Rightarrow> val" where
  "lookupArg named name = (case named name of Some v \<Rightarrow> v | None \<Rightarrow> VNil)"

definition n2pRepl :: "namedArgs \<Rightarrow> string \<Rightarrow> n2pState \<Rightarrow> string \<times> n2pState" where
  "n2pRepl named match st =
     (let (seen, args, counter) = st;
          name = drop 1 match
      in case seen name of
           Some pos \<Rightarrow> (''$'' @ fmt_d pos, (seen, args, counter))
         | None \<Rightarrow>
             (let counter = counter + 1;
                  seen = seen(name \<mapsto> counter);
                  args = args @ [lookupArg named name]
              in (''$'' @ fmt_d counter, (seen, args, counter))))"

definition namedToPositional :: "string \<Rightarrow> namedArgs \<Rightarrow> string \<times> val list" where
  "namedToPositional query named =
     (if named = Map.empty then (query, [])
      else (let (result, (seen, args, counter)) =
                  ReplaceAllStringFunc namedParamRe query (n2pRepl named) (Map.empty, [], 0)
            in (result, args)))"

definition NamedToPositional :: "string \<Rightarrow> namedArgs \<Rightarrow> string \<times> val list" where
  "NamedToPositional query named = namedToPositional query named"

section \<open>Reference descriptions used by the statements\<close>

text \<open>
  The statements below describe results with the following functions, which are not part
  of the code. \<open>markerFree sg cls s\<close>: no \<open>sg\<close> in \<open>s\<close> is directly followed by a
  character of \<open>cls\<close>. \<open>srcText ms tail\<close> is the text \<open>pre\<^sub>1 $ds\<^sub>1 \<dots> pre\<^sub>k $ds\<^sub>k tail\<close>
  for \<open>ms = [(pre\<^sub>1, ds\<^sub>1), \<dots>]\<close>; \<open>markersFit ms tail\<close> says that the \<open>$ds\<^sub>i\<close> are all
  the markers of that text and that every index is below \<open>2^63\<close>; \<open>shiftedText c\<close>
  is the text with every index shifted by \<open>c - 1\<close>.
\<close>

fun markerFree :: "char \<Rightarrow> (char \<Rightarrow> bool) \<Rightarrow> string \<Rightarrow> bool" where
  "markerFree sg cls [] = True"
| "markerFree sg cls [c] = True"
| "markerFree sg cls (c # d # cs) = (\<not> (c = sg \<and> cls d) \<and> markerFree sg cls (d # cs))"

definition startsWith :: "(char \<Rightarrow> bool) \<Rightarrow> string \<Rightarrow> bool" where
  "startsWith cls s = (case s of [] \<Rightarrow> False | c # cs \<Rightarrow> cls c)"

fun srcText :: "(string \<times> string) list \<Rightarrow> string \<Rightarrow> string" where
  "srcText [] tail = tail"
| "srcText ((pre, ds) # ms) tail = pre @ ''$'' @ ds @ srcText ms tail"

fun shiftedText :: "goint \<Rightarrow> (string \<times> string) list \<Rightarrow> string \<Rightarrow> string" where
  "shiftedText c [] tail = tail"
| "shiftedText c ((pre, ds) # ms) tail =
     pre @ ''$'' @ fmt_d (of_nat (digits_val ds) + c - 1) @ shiftedText c ms tail"

fun markersFit :: "(string \<times> string) list \<Rightarrow> string \<Rightarrow> bool" where
  "markersFit [] tail = markerFree (CHR ''$'') isDigit tail"
| "markersFit ((pre, ds) # ms) tail =
     (markerFree (CHR ''$'') isDigit pre \<and> ds \<noteq> [] \<and> list_all isDigit ds
      \<and> digits_val ds < 2 ^ 63
      \<and> \<not> startsWith isDigit (srcText ms tail) \<and> markersFit ms tail)"

text \<open>
  \<open>splitMarkers [] s\<close> cuts a text at its markers: the list of the pairs of the text
  before a marker and the digits of the marker, and the text after the last marker.
\<close>

function splitMarkers :: "string \<Rightarrow> string \<Rightarrow> (string \<times> string) list \<times> string" where
  "splitMarkers pre [] = ([], pre)"
| "splitMarkers pre (c # cs) =
     (if c = CHR ''$'' \<and> takeWhile isDigit cs \<noteq> []
      then (let (ms, tail) = splitMarkers [] (dropWhile isDigit cs)
            in ((pre, takeWhile isDigit cs) # ms, tail))
      else splitMarkers (pre @ [c]) cs)"
  by pat_completeness auto
termination
  by (relation "measure (\<lambda>(pre, s). length s)")
     (auto simp: length_dropWhile_le le_imp_less_Suc)

text \<open>
  \<open>renderChain ps c\<close>: the renderings of the predicates \<open>ps\<close> in order, the first at
  cursor \<open>c\<close>, each next one at the cursor returned by its predecessor; \<open>chainEnd\<close> is
  the cursor after the last one and \<open>chainArgs\<close> the values of all, in order.
\<close>

fun renderChain :: "Predicate list \<Rightarrow> goint \<Rightarrow> (string \<times> val list \<times> goint) list" where
  "renderChain [] c = []"
| "renderChain (p # ps) c = (let r = ToSQL p c in r # renderChain ps (snd (snd r)))"

definition chainEnd :: "(string \<times> 'a \<times> goint) list \<Rightarrow> goint \<Rightarrow> goint" where
  "chainEnd rs c = (if rs = [] then c else snd (snd (last rs)))"

definition chainArgs :: "(string \<times> val list \<times> goint) list \<Rightarrow> val list" where
  "chainArgs rs = concat (map (\<lambda>r. fst (snd r)) rs)"

fun renderChain_named :: "NamedPredicate list \<Rightarrow> goint \<Rightarrow> (string \<times> namedArgs \<times> goint) list" where
  "renderChain_named [] c = []"
| "renderChain_named (p # ps) c =
     (let r = ToSQL_named p c in r # renderChain_named ps (snd (snd r)))"

definition chainArgs_named :: "namedArgs \<Rightarrow> (string \<times> namedArgs \<times> goint) list \<Rightarrow> namedArgs" where
  "chainArgs_named args rs = foldl (++) args (map (\<lambda>r. fst (snd r)) rs)"

text \<open>The pieces of statement text that carry no parameters, and SET assignments.\<close>

definition clauseText :: "string \<Rightarrow> (string \<times> 'a \<times> goint) list \<Rightarrow> string" where
  "clauseText kw rs = (if rs = [] then [] else kw @ Join (map fst rs) '' AND '')"

definition selectHead :: "'p SelectBuilder \<Rightarrow> string" where
  "selectHead b =
     (if s_distinct b then ''SELECT DISTINCT '' else ''SELECT '') @ Join (s_fields b) '', ''
       @ '' FROM '' @ s_from b
       @ concat (map (\<lambda>j. '' '' @ JoinType_String (joinType j) @ '' '' @ j_table j
                          @ '' ON '' @ j_left j @ '' = '' @ j_right j) (s_joins b))"

definition listText :: "string \<Rightarrow> string list \<Rightarrow> string" where
  "listText kw cols = (if cols = [] then [] else kw @ Join cols '', '')"

definition orderByText :: "'p SelectBuilder \<Rightarrow> string" where
  "orderByText b =
     listText '' ORDER BY '' (map (\<lambda>ob. o_col ob @ '' '' @ OrderDir_String (o_dir ob)) (s_orderBy b))"

fun setTexts :: "goint \<Rightarrow> setClause list \<Rightarrow> string list" where
  "setTexts c [] = []"
| "setTexts c (s # ss) = (sc_col s @ '' = $'' @ fmt_d c) # setTexts (c + 1) ss"

fun setTexts_named :: "goint \<Rightarrow> setClause list \<Rightarrow> string list" where
  "setTexts_named c [] = []"
| "setTexts_named c (s # ss) = (sc_col s @ '' = @p'' @ fmt_d (c + 1)) # setTexts_named (c + 1) ss"

fun setArgs_named :: "goint \<Rightarrow> setClause list \<Rightarrow> namedArgs \<Rightarrow> namedArgs" where
  "setArgs_named c [] args = args"
| "setArgs_named c (s # ss) args = setArgs_named (c + 1) ss (args(''p'' @ fmt_d (c + 1) \<mapsto> sc_val s))"

text \<open>
  The VALUES rows of an INSERT: \<open>markers c n\<close> are the \<open>n\<close> markers \<open>$c\<close>,
  \<open>$(c + 1)\<close>, \<dots>; \<open>rowTexts c rows\<close> are the texts of the rows, each a parenthesised
  list of as many markers as the row has values, the first row numbered from \<open>c\<close> and each
  next row from where its predecessor stopped. \<open>insertTail\<close> is the text after the rows,
  which carries no parameters.
\<close>

fun markers :: "goint \<Rightarrow> nat \<Rightarrow> string list" where
  "markers c 0 = []"
| "markers c (Suc n) = (''$'' @ fmt_d c) # markers (c + 1) n"

fun rowTexts :: "goint \<Rightarrow> val list list \<Rightarrow> string list" where
  "rowTexts c [] = []"
| "rowTexts c (row # rows) =
     (''('' @ Join (markers c (length row)) '', '' @ '')'') # rowTexts (c + of_nat (length row)) rows"

definition insertTail :: "'r InsertBuilder \<Rightarrow> string" where
  "insertTail b =
     (if i_onConflict b = [] then [] else '' ON CONFLICT '' @ i_onConflict b)
       @ listText '' RETURNING '' (i_returning b)"

text \<open>
  \<open>markerNames q\<close>: the names of the markers \<open>@name\<close> of \<open>q\<close>, in order of occurrence,
  with repetitions; \<open>firstOccurrences\<close> keeps the first occurrence of each;
  \<open>positionOf ds x\<close> is the position of \<open>x\<close> in \<open>ds\<close>, counted from 1;
  \<open>positionalText q\<close> is \<open>q\<close> with every marker replaced by \<open>$\<close> and the position of
  its name among the first occurrences. \<open>seenOf acc\<close> is the map from the names of
  \<open>acc\<close> to their positions.
\<close>

definition segName :: "seg \<Rightarrow> string list" where
  "segName s = (case s of Lit c \<Rightarrow> [] | Match m \<Rightarrow> [drop 1 m])"

definition markerNames :: "string \<Rightarrow> string list" where
  "markerNames q = concat (map segName (findAll (CHR ''@'') isWord q))"

fun firstsFrom :: "'a list \<Rightarrow> 'a list \<Rightarrow> 'a list" where
  "firstsFrom acc [] = acc"
| "firstsFrom acc (x # xs) = firstsFrom (if x \<in> set acc then acc else acc @ [x]) xs"

definition firstOccurrences :: "'a list \<Rightarrow> 'a list" where
  "firstOccurrences xs = firstsFrom [] xs"

definition positionOf :: "'a list \<Rightarrow> 'a \<Rightarrow> nat" where
  "positionOf ds x = Suc (length (takeWhile (\<lambda>y. y \<noteq> x) ds))"

definition positionRepl :: "string list \<Rightarrow> string \<Rightarrow> unit \<Rightarrow> string \<times> unit" where
  "positionRepl ds match u = (''$'' @ fmt_d (of_nat (positionOf ds (drop 1 match))), u)"

definition positionalText :: "string \<Rightarrow> string" where
  "positionalText q =
     fst (ReplaceAllStringFunc namedParamRe q (positionRepl (firstOccurrences (markerNames q))) ())"

definition seenOf :: "string list \<Rightarrow> (string \<rightharpoonup> goint)" where
  "seenOf acc = (\<lambda>n. if n \<in> set acc then Some (of_nat (positionOf acc n)) else None)"

section \<open>Argument slices in a store\<close>

text \<open>
  The positional \<open>Build\<close> collects the arguments with \<open>append\<close>, which writes into the
  backing array of its first operand when the capacity suffices. To see which arrays
  \<open>Build\<close> writes, the arrays of type \<open>[]any\<close> are kept in a store: the list of the
  arrays allocated so far, an array being the list of its cells and an address an index
  in the store. A slice is nil or an address with a length; its capacity is the size of
  the array. \<open>literal\<close> is a composite literal \<open>[]any{\<dots>}\<close>: a new array of exactly the
  given elements. \<open>append_s\<close> is \<open>append(s, xs...)\<close>: it re-uses the array of \<open>s\<close> if
  the new elements fit and otherwise allocates a new array holding the old and the new
  elements with some spare cells; \<open>g\<close>, from the old and the needed size to the number
  of spare cells, stands for the growth policy of the run-time system. The other data
  (strings, predicate structs, slices of predicates, of strings and of SET assignments)
  are never assigned by \<open>Build\<close> and remain values.
\<close>

type_synonym store = "val list list"

datatype slice = NilSlice | Slice nat nat

definition elems :: "store \<Rightarrow> slice \<Rightarrow> val list" where
  "elems h s = (case s of NilSlice \<Rightarrow> [] | Slice a n \<Rightarrow> take n (h ! a))"

definition sliceLen :: "slice \<Rightarrow> nat" where
  "sliceLen s = (case s of NilSlice \<Rightarrow> 0 | Slice a n \<Rightarrow> n)"

definition literal :: "store \<Rightarrow> val list \<Rightarrow> store \<times> slice" where
  "literal h xs = (h @ [xs], Slice (length h) (length xs))"

definition append_s :: "(nat \<Rightarrow> nat \<Rightarrow> nat) \<Rightarrow> store \<Rightarrow> slice \<Rightarrow> val list \<Rightarrow> store \<times> slice" where
  "append_s g h s xs =
     (case s of
        NilSlice \<Rightarrow>
          (if xs = [] then (h, NilSlice)
           else (h @ [xs @ replicate (g 0 (length xs)) VNil], Slice (length h) (length xs)))
      | Slice a n \<Rightarrow>
          (if n + length xs \<le> length (h ! a)
           then (h[a := take n (h ! a) @ xs @ drop (n + length xs) (h ! a)], Slice a (n + length xs))
           else (h @ [take n (h ! a) @ xs @ replicate (g (length (h ! a)) (n + length xs)) VNil],
                 Slice (length h) (n + length xs))))"

text \<open>
  The positional predicates over the store: the arguments of \<open>Raw\<close> and the values of
  \<open>In\<close> are slices, and \<open>ToSQL\<close> returns a slice: the stored one for \<open>Raw\<close> and \<open>In\<close>,
  a new literal for the comparisons, nil for the null tests and for an empty
  combination, and for a combination of two or more children the local \<open>allArgs\<close>,
  which starts nil.
\<close>

definition cmp_s :: "store \<Rightarrow> string \<Rightarrow> string \<Rightarrow> val \<Rightarrow> goint \<Rightarrow> store \<times> string \<times> slice \<times> goint" where
  "cmp_s h col opr v offset =
     (let (h, args) = literal h [v]
      in (h, col @ '' '' @ opr @ '' $'' @ fmt_d offset, args, offset + 1))"

fun ToSQL_s :: "(nat \<Rightarrow> nat \<Rightarrow> nat) \<Rightarrow> store \<Rightarrow> slice PredicateOf \<Rightarrow> goint \<Rightarrow> store \<times> string \<times> slice \<times> goint"
and combinePredicates_s :: "(nat \<Rightarrow> nat \<Rightarrow> nat) \<Rightarrow> store \<Rightarrow> slice PredicateOf list \<Rightarrow> string \<Rightarrow> goint \<Rightarrow> store \<times> string \<times> slice \<times> goint"
and combineLoop_s :: "(nat \<Rightarrow> nat \<Rightarrow> nat) \<Rightarrow> store \<Rightarrow> slice PredicateOf list \<Rightarrow> string list \<Rightarrow> slice \<Rightarrow> goint \<Rightarrow> store \<times> string list \<times> slice \<times> goint"
where
  "ToSQL_s g h (rawPred sql args) offset =
     (h, fst (ReplaceAllStringFunc placeholderRe sql (rawRepl offset) ()), args,
      offset + of_nat (sliceLen args))"
| "ToSQL_s g h (eqPred col v) offset = cmp_s h col ''='' v offset"
| "ToSQL_s g h (neqPred col v) offset = cmp_s h col ''!='' v offset"
| "ToSQL_s g h (gtPred col v) offset = cmp_s h col ''>'' v offset"
| "ToSQL_s g h (gtePred col v) offset = cmp_s h col ''>='' v offset"
| "ToSQL_s g h (ltPred col v) offset = cmp_s h col ''<'' v offset"
| "ToSQL_s g h (ltePred col v) offset = cmp_s h col ''<='' v offset"
| "ToSQL_s g h (likePred col pattern) offset = cmp_s h col ''LIKE'' (VStr pattern) offset"
| "ToSQL_s g h (ilikePred col pattern) offset = cmp_s h col ''ILIKE'' (VStr pattern) offset"
| "ToSQL_s g h (inPred col vals) offset =
     (let placeholders = map (\<lambda>i. ''$'' @ fmt_d (offset + of_nat i)) [0..<sliceLen vals]
      in (h, col @ '' IN ('' @ Join placeholders '', '' @ '')'', vals,
          offset + of_nat (sliceLen vals)))"
| "ToSQL_s g h (betweenPred col low high) offset =
     (let (h, args) = literal h [low, high]
      in (h, col @ '' BETWEEN $'' @ fmt_d offset @ '' AND $'' @ fmt_d (offset + 1), args,
          offset + 2))"
| "ToSQL_s g h (isNullPred col) offset = (h, col @ '' IS NULL'', NilSlice, offset)"
| "ToSQL_s g h (isNotNullPred col) offset = (h, col @ '' IS NOT NULL'', NilSlice, offset)"
| "ToSQL_s g h (andPred preds) offset = combinePredicates_s g h preds ''AND'' offset"
| "ToSQL_s g h (orPred preds) offset = combinePredicates_s g h preds ''OR'' offset"
| "ToSQL_s g h (notPred pred) offset =
     (let (h, sql, args, newOffset) = ToSQL_s g h pred offset
      in (h, ''NOT ('' @ sql @ '')'', args, newOffset))"
| "combinePredicates_s g h [] op offset = (h, [], NilSlice, offset)"
| "combinePredicates_s g h [p] op offset = ToSQL_s g h p offset"
| "combinePredicates_s g h (p # q # ps) op offset =
     (let (h, parts, allArgs, cur) = combineLoop_s g h (p # q # ps) [] NilSlice offset
      in (h, ''('' @ Join parts ('' '' @ op @ '' '') @ '')'', allArgs, cur))"
| "combineLoop_s g h [] parts allArgs cur = (h, parts, allArgs, cur)"
| "combineLoop_s g h (p # ps) parts allArgs cur =
     (let (h, sql, args, next) = ToSQL_s g h p cur;
          (h, allArgs) = append_s g h allArgs (elems h args)
      in combineLoop_s g h ps (parts @ [sql]) allArgs next)"

fun writePredicatesFrom_s :: "(nat \<Rightarrow> nat \<Rightarrow> nat) \<Rightarrow> store \<Rightarrow> nat \<Rightarrow> string \<Rightarrow> slice PredicateOf list \<Rightarrow> goint \<Rightarrow> slice \<Rightarrow> store \<times> string \<times> goint \<times> slice" where
  "writePredicatesFrom_s g h i sb [] offset args = (h, sb, offset, args)"
| "writePredicatesFrom_s g h i sb (p # ps) offset args =
     (let sb1 = (if i > 0 then sb @ '' AND '' else sb);
          (h, sql, pArgs, newOffset) = ToSQL_s g h p offset;
          (h, args) = append_s g h args (elems h pArgs)
      in writePredicatesFrom_s g h (Suc i) (sb1 @ sql) ps newOffset args)"

definition writePredicates_s :: "(nat \<Rightarrow> nat \<Rightarrow> nat) \<Rightarrow> store \<Rightarrow> string \<Rightarrow> slice PredicateOf list \<Rightarrow> goint \<Rightarrow> slice \<Rightarrow> store \<times> string \<times> goint \<times> slice" where
  "writePredicates_s g h sb preds offset args = writePredicatesFrom_s g h 0 sb preds offset args"

text \<open>
  Descriptions for the statements about the store: a slice is well formed in a store if its
  array exists and is at least as long as the slice; \<open>extends h h'\<close> says that \<open>h'\<close>
  has all the arrays of \<open>h\<close>, unchanged, and possibly more; \<open>below k\<close> and
  \<open>atOrAfter k\<close> locate the array of a slice.
\<close>

definition wfSlice :: "store \<Rightarrow> slice \<Rightarrow> bool" where
  "wfSlice h s = (case s of NilSlice \<Rightarrow> True | Slice a n \<Rightarrow> a < length h \<and> n \<le> length (h ! a))"

definition below :: "nat \<Rightarrow> slice \<Rightarrow> bool" where
  "below k s = (case s of NilSlice \<Rightarrow> True | Slice a n \<Rightarrow> a < k)"

definition atOrAfter :: "nat \<Rightarrow> slice \<Rightarrow> bool" where
  "atOrAfter k s = (case s of NilSlice \<Rightarrow> True | Slice a n \<Rightarrow> k \<le> a)"

definition extends :: "'a list \<Rightarrow> 'a list \<Rightarrow> bool" where
  "extends h h' = (length h \<le> length h' \<and> take (length h) h' = h)"

text \<open>
  The positional \<open>Build\<close> methods over the store. They take the store and return the store
  after the call with the SQL text and the slice of arguments; \<open>args\<close> starts as the nil
  slice. The rows of an INSERT are slices of type \<open>[]any\<close>, read cell by cell by the loop
  over the row (\<open>insertRow_s\<close> runs over the indices of the row).
\<close>

definition SelectBuilder_Build_s :: "(nat \<Rightarrow> nat \<Rightarrow> nat) \<Rightarrow> store \<Rightarrow> slice PredicateOf SelectBuilder \<Rightarrow> store \<times> string \<times> slice" where
  "SelectBuilder_Build_s g h b =
     (let sb = (if s_distinct b then ''SELECT DISTINCT '' else ''SELECT '');
          sb = sb @ Join (s_fields b) '', '';
          sb = sb @ '' FROM '';
          sb = sb @ s_from b;
          sb = foldl writeJoin sb (s_joins b);
          (h, sb, offset, args) =
            (if length (s_where b) > 0
             then writePredicates_s g h (sb @ '' WHERE '') (s_where b) 1 NilSlice
             else (h, sb, 1, NilSlice));
          sb = (if length (s_groupBy b) > 0
                then sb @ '' GROUP BY '' @ Join (s_groupBy b) '', '' else sb);
          (h, sb, offset, args) =
            (if length (s_having b) > 0
             then writePredicates_s g h (sb @ '' HAVING '') (s_having b) offset args
             else (h, sb, offset, args));
          sb = (if length (s_orderBy b) > 0
                then sb @ '' ORDER BY '' @
                     Join (map (\<lambda>ob. o_col ob @ '' '' @ OrderDir_String (o_dir ob)) (s_orderBy b)) '', ''
                else sb);
          (h, sb, offset, args) =
            (case s_limit b of
               Some n \<Rightarrow> (let (h, args) = append_s g h args [VInt (sint n)]
                          in (h, sb @ '' LIMIT $'' @ fmt_d offset, offset + 1, args))
             | None \<Rightarrow> (h, sb, offset, args));
          (h, sb, offset, args) =
            (case s_offset b of
               Some n \<Rightarrow> (let (h, args) = append_s g h args [VInt (sint n)]
                          in (h, sb @ '' OFFSET $'' @ fmt_d offset, offset + 1, args))
             | None \<Rightarrow> (h, sb, offset, args))
      in (h, sb, args))"

fun insertRow_s :: "(nat \<Rightarrow> nat \<Rightarrow> nat) \<Rightarrow> store \<Rightarrow> slice \<Rightarrow> nat list \<Rightarrow> string list \<Rightarrow> slice \<Rightarrow> goint \<Rightarrow> store \<times> string list \<times> slice \<times> goint" where
  "insertRow_s g h row [] placeholders args offset = (h, placeholders, args, offset)"
| "insertRow_s g h row (j # js) placeholders args offset =
     (let v = elems h row ! j;
          (h, args) = append_s g h args [v]
      in insertRow_s g h row js (placeholders @ [''$'' @ fmt_d offset]) args (offset + 1))"

fun insertRows_s :: "(nat \<Rightarrow> nat \<Rightarrow> nat) \<Rightarrow> store \<Rightarrow> nat \<Rightarrow> slice list \<Rightarrow> string \<Rightarrow> slice \<Rightarrow> goint \<Rightarrow> store \<times> string \<times> slice \<times> goint" where
  "insertRows_s g h i [] sb args offset = (h, sb, args, offset)"
| "insertRows_s g h i (row # rows) sb args offset =
     (let sb = (if i > 0 then sb @ '', '' else sb);
          (h, placeholders, args, offset) = insertRow_s g h row [0..<sliceLen row] [] args offset;
          sb = sb @ ''('' @ Join placeholders '', '' @ '')''
      in insertRows_s g h (Suc i) rows sb args offset)"

definition InsertBuilder_Build_s :: "(nat \<Rightarrow> nat \<Rightarrow> nat) \<Rightarrow> store \<Rightarrow> slice InsertBuilder \<Rightarrow> store \<times> string \<times> slice" where
  "InsertBuilder_Build_s g h b =
     (let sb = ''INSERT INTO '' @ i_table b;
          sb = (if length (i_columns b) > 0
                then sb @ '' ('' @ Join (i_columns b) '', '' @ '')'' else sb);
          sb = sb @ '' VALUES '';
          (h, sb, args, offset) = insertRows_s g h 0 (i_values b) sb NilSlice 1;
          sb = (if i_onConflict b \<noteq> [] then sb @ '' ON CONFLICT '' @ i_onConflict b else sb);
          sb = (if length (i_returning b) > 0
                then sb @ '' RETURNING '' @ Join (i_returning b) '', '' else sb)
      in (h, sb, args))"

fun updateSets_s :: "(nat \<Rightarrow> nat \<Rightarrow> nat) \<Rightarrow> store \<Rightarrow> setClause list \<Rightarrow> string list \<Rightarrow> slice \<Rightarrow> goint \<Rightarrow> store \<times> string list \<times> slice \<times> goint" where
  "updateSets_s g h [] setParts args offset = (h, setParts, args, offset)"
| "updateSets_s g h (s # ss) setParts args offset =
     (let (h, args) = append_s g h args [sc_val s]
      in updateSets_s g h ss (setParts @ [sc_col s @ '' = $'' @ fmt_d offset]) args (offset + 1))"

definition UpdateBuilder_Build_s :: "(nat \<Rightarrow> nat \<Rightarrow> nat) \<Rightarrow> store \<Rightarrow> slice PredicateOf UpdateBuilder \<Rightarrow> store \<times> string \<times> slice" where
  "UpdateBuilder_Build_s g h b =
     (let sb = ''UPDATE '' @ u_table b @ '' SET '';
          (h, setParts, args, offset) = updateSets_s g h (u_sets b) [] NilSlice 1;
          sb = sb @ Join setParts '', '';
          (h, sb, offset, args) =
            (if length (u_where b) > 0
             then writePredicates_s g h (sb @ '' WHERE '') (u_where b) offset args
             else (h, sb, offset, args));
          sb = (if length (u_returning b) > 0
                then sb @ '' RETURNING '' @ Join (u_returning b) '', '' else sb)
      in (h, sb, args))"

definition DeleteBuilder_Build_s :: "(nat \<Rightarrow> nat \<Rightarrow> nat) \<Rightarrow> store \<Rightarrow> slice PredicateOf DeleteBuilder \<Rightarrow> store \<times> string \<times> slice" where
  "DeleteBuilder_Build_s g h b =
     (let sb = ''DELETE FROM '' @ d_table b;
          (h, sb, offset, args) =
            (if length (d_where b) > 0
             then writePredicates_s g h (sb @ '' WHERE '') (d_where b) 1 NilSlice
             else (h, sb, 1, NilSlice));
          sb = (if length (d_returning b) > 0
                then sb @ '' RETURNING '' @ Join (d_returning b) '', '' else sb)
      in (h, sb, args))"

datatype Builder_s =
    SelectS "slice PredicateOf SelectBuilder"
  | InsertS "slice InsertBuilder"
  | UpdateS "slice PredicateOf UpdateBuilder"
  | DeleteS "slice PredicateOf DeleteBuilder"

fun Build_s :: "(nat \<Rightarrow> nat \<Rightarrow> nat) \<Rightarrow> store \<Rightarrow> Builder_s \<Rightarrow> store \<times> string \<times> slice" where
  "Build_s g h (SelectS b) = SelectBuilder_Build_s g h b"
| "Build_s g h (InsertS b) = InsertBuilder_Build_s g h b"
| "Build_s g h (UpdateS b) = UpdateBuilder_Build_s g h b"
| "Build_s g h (DeleteS b) = DeleteBuilder_Build_s g h b"

text \<open>
  \<open>slicesOf b\<close> are the slices of type \<open>[]any\<close> that a builder holds, \<open>wfBuilder h b\<close>
  says that they are well formed in the store, and \<open>readBuilder h b\<close> is the builder with
  every such slice replaced by the list of its elements in the store.
\<close>

fun slicesOf :: "Builder_s \<Rightarrow> slice set" where
  "slicesOf (SelectS b) = (\<Union>p\<in>set (s_where b) \<union> set (s_having b). set_PredicateOf p)"
| "slicesOf (InsertS b) = set (i_values b)"
| "slicesOf (UpdateS b) = (\<Union>p\<in>set (u_where b). set_PredicateOf p)"
| "slicesOf (DeleteS b) = (\<Union>p\<in>set (d_where b). set_PredicateOf p)"

definition wfBuilder :: "store \<Rightarrow> Builder_s \<Rightarrow> bool" where
  "wfBuilder h b = (\<forall>s\<in>slicesOf b. wfSlice h s)"

fun readBuilder :: "store \<Rightarrow> Builder_s \<Rightarrow> Builder" where
  "readBuilder h (SelectS b) =
     SelectB \<lparr>s_distinct = s_distinct b, s_fields = s_fields b, s_from = s_from b,
              s_joins = s_joins b, s_where = map (map_PredicateOf (elems h)) (s_where b),
              s_groupBy = s_groupBy b, s_having = map (map_PredicateOf (elems h)) (s_having b),
              s_orderBy = s_orderBy b, s_limit = s_limit b, s_offset = s_offset b\<rparr>"
| "readBuilder h (InsertS b) =
     InsertB \<lparr>i_table = i_table b, i_columns = i_columns b, i_values = map (elems h) (i_values b),
              i_onConflict = i_onConflict b, i_returning = i_returning b\<rparr>"
| "readBuilder h (UpdateS b) =
     UpdateB \<lparr>u_table = u_table b, u_sets = u_sets b,
              u_where = map (map_PredicateOf (elems h)) (u_where b), u_returning = u_returning b\<rparr>"
| "readBuilder h (DeleteS b) =
     DeleteB \<lparr>d_table = d_table b, d_where = map (map_PredicateOf (elems h)) (d_where b),
              d_returning = d_returning b\<rparr>"

text \<open>
  \<open>kept k h h' s\<close> relates the store \<open>h\<close> before some steps of \<open>Build\<close> to the store
  \<open>h'\<close> after them and the slice \<open>s\<close> that collects the arguments: no array is lost,
  the first \<open>k\<close> arrays are unchanged, and \<open>s\<close> is well formed and is not one of them.
\<close>

definition kept :: "nat \<Rightarrow> store \<Rightarrow> store \<Rightarrow> slice \<Rightarrow> bool" where
  "kept k h h' s = (length h \<le> length h' \<and> take k h' = take k h \<and> wfSlice h' s \<and> atOrAfter k s)"

section \<open>Argument maps in a store\<close>

text \<open>
  The named \<open>Build\<close> collects the arguments in maps, which are references: a store into
  a map is seen through every variable that holds it. To see which maps \<open>Build\<close> stores
  into, the maps of type \<open>map[string]any\<close> are kept in a store, the list of the maps made
  so far; a reference is nil or an address, an index in the store, and a nil map reads as
  the empty map. \<open>make_m\<close> is \<open>make(map[string]any)\<close> and \<open>literal_m\<close> a composite
  literal: a new map. \<open>store_m\<close> is the assignment \<open>m[name] = v\<close> and \<open>mergeArgs_m\<close> is
  \<open>mergeArgs\<close>. The destination of these two is given by its address: in every function
  of the package the map stored into is a local that was set by \<open>make\<close> in the same
  function (or that local passed on to \<open>writePredicates\<close> and \<open>mergeArgs\<close>), so it is
  never nil.
\<close>

type_synonym mstore = "namedArgs list"

datatype mref = NilMap | MapAt nat

definition read_m :: "mstore \<Rightarrow> mref \<Rightarrow> namedArgs" where
  "read_m h r = (case r of NilMap \<Rightarrow> Map.empty | MapAt a \<Rightarrow> h ! a)"

definition make_m :: "mstore \<Rightarrow> mstore \<times> nat" where
  "make_m h = (h @ [Map.empty], length h)"

definition literal_m :: "mstore \<Rightarrow> namedArgs \<Rightarrow> mstore \<times> mref" where
  "literal_m h m = (h @ [m], MapAt (length h))"

definition store_m :: "mstore \<Rightarrow> nat \<Rightarrow> string \<Rightarrow> val \<Rightarrow> mstore" where
  "store_m h a name v = h[a := (h ! a)(name \<mapsto> v)]"

definition mergeArgs_m :: "mstore \<Rightarrow> nat \<Rightarrow> mref \<Rightarrow> mstore" where
  "mergeArgs_m h dst src = h[dst := mergeArgs (h ! dst) (read_m h src)]"

text \<open>
  The named predicates over the store: the arguments of \<open>Raw\<close> are a reference, and
  \<open>ToSQL\<close> returns a reference: the stored one for \<open>Raw\<close>, a new literal for the
  comparisons and \<open>Between\<close>, a map made and filled by the loop for \<open>In\<close>, nil for the
  null tests and for an empty combination, and for a combination of two or more children
  the local \<open>allArgs\<close>, made before the loop.
\<close>

definition cmpN_m :: "mstore \<Rightarrow> string \<Rightarrow> string \<Rightarrow> val \<Rightarrow> goint \<Rightarrow> mstore \<times> string \<times> mref \<times> goint" where
  "cmpN_m h col opr v counter =
     (let (counter, name) = nextParam counter;
          (h, args) = literal_m h [name \<mapsto> v]
      in (h, col @ '' '' @ opr @ '' @'' @ name, args, counter))"

fun inLoopN_m :: "mstore \<Rightarrow> val list \<Rightarrow> string list \<Rightarrow> nat \<Rightarrow> goint \<Rightarrow> mstore \<times> string list \<times> goint" where
  "inLoopN_m h [] placeholders args counter = (h, placeholders, counter)"
| "inLoopN_m h (v # vs) placeholders args counter =
     (let (counter, name) = nextParam counter
      in inLoopN_m (store_m h args name v) vs (placeholders @ [''@'' @ name]) args counter)"

fun ToSQL_m :: "mstore \<Rightarrow> mref NamedPredicateOf \<Rightarrow> goint \<Rightarrow> mstore \<times> string \<times> mref \<times> goint"
and combinePredicates_m :: "mstore \<Rightarrow> mref NamedPredicateOf list \<Rightarrow> string \<Rightarrow> goint \<Rightarrow> mstore \<times> string \<times> mref \<times> goint"
and combineLoop_m :: "mstore \<Rightarrow> mref NamedPredicateOf list \<Rightarrow> string list \<Rightarrow> nat \<Rightarrow> goint \<Rightarrow> mstore \<times> string list \<times> goint"
where
  "ToSQL_m h (rawPredN sql args) counter =
     (if args = NilMap then (h, sql, NilMap, counter) else (h, sql, args, counter))"
| "ToSQL_m h (eqPredN col v) counter = cmpN_m h col ''='' v counter"
| "ToSQL_m h (neqPredN col v) counter = cmpN_m h col ''!='' v counter"
| "ToSQL_m h (gtPredN col v) counter = cmpN_m h col ''>'' v counter"
| "ToSQL_m h (gtePredN col v) counter = cmpN_m h col ''>='' v counter"
| "ToSQL_m h (ltPredN col v) counter = cmpN_m h col ''<'' v counter"
| "ToSQL_m h (ltePredN col v) counter = cmpN_m h col ''<='' v counter"
| "ToSQL_m h (likePredN col pattern) counter = cmpN_m h col ''LIKE'' (VStr pattern) counter"
| "ToSQL_m h (ilikePredN col pattern) counter = cmpN_m h col ''ILIKE'' (VStr pattern) counter"
| "ToSQL_m h (inPredN col vals) counter =
     (let (h, args) = make_m h;
          (h, placeholders, counter) = inLoopN_m h vals [] args counter
      in (h, col @ '' IN ('' @ Join placeholders '', '' @ '')'', MapAt args, counter))"
| "ToSQL_m h (betweenPredN col low high) counter =
     (let (counter, lowName) = nextParam counter;
          (counter, highName) = nextParam counter;
          (h, args) = literal_m h [lowName \<mapsto> low, highName \<mapsto> high]
      in (h, col @ '' BETWEEN @'' @ lowName @ '' AND @'' @ highName, args, counter))"
| "ToSQL_m h (isNullPredN col) counter = (h, col @ '' IS NULL'', NilMap, counter)"
| "ToSQL_m h (isNotNullPredN col) counter = (h, col @ '' IS NOT NULL'', NilMap, counter)"
| "ToSQL_m h (andPredN preds) counter = combinePredicates_m h preds ''AND'' counter"
| "ToSQL_m h (orPredN preds) counter = combinePredicates_m h preds ''OR'' counter"
| "ToSQL_m h (notPredN pred) counter =
     (let (h, sql, args, counter) = ToSQL_m h pred counter
      in (h, ''NOT ('' @ sql @ '')'', args, counter))"
| "combinePredicates_m h [] op counter = (h, [], NilMap, counter)"
| "combinePredicates_m h [p] op counter = ToSQL_m h p counter"
| "combinePredicates_m h (p # q # ps) op counter =
     (let (h, allArgs) = make_m h;
          (h, parts, counter) = combineLoop_m h (p # q # ps) [] allArgs counter
      in (h, ''('' @ Join parts ('' '' @ op @ '' '') @ '')'', MapAt allArgs, counter))"
| "combineLoop_m h [] parts allArgs counter = (h, parts, counter)"
| "combineLoop_m h (p # ps) parts allArgs counter =
     (let (h, sql, args, counter) = ToSQL_m h p counter;
          h = mergeArgs_m h allArgs args
      in combineLoop_m h ps (parts @ [sql]) allArgs counter)"

fun writePredicatesFrom_m :: "mstore \<Rightarrow> nat \<Rightarrow> string \<Rightarrow> mref NamedPredicateOf list \<Rightarrow> goint \<Rightarrow> nat \<Rightarrow> mstore \<times> string \<times> goint" where
  "writePredicatesFrom_m h i sb [] counter args = (h, sb, counter)"
| "writePredicatesFrom_m h i sb (p # ps) counter args =
     (let sb1 = (if i > 0 then sb @ '' AND '' else sb);
          (h, sql, pArgs, counter) = ToSQL_m h p counter;
          h = mergeArgs_m h args pArgs
      in writePredicatesFrom_m h (Suc i) (sb1 @ sql) ps counter args)"

definition writePredicates_m :: "mstore \<Rightarrow> string \<Rightarrow> mref NamedPredicateOf list \<Rightarrow> goint \<Rightarrow> nat \<Rightarrow> mstore \<times> string \<times> goint" where
  "writePredicates_m h sb preds counter args = writePredicatesFrom_m h 0 sb preds counter args"

text \<open>
  The named \<open>Build\<close> methods over the store. They take the store and return the store
  after the call with the SQL text and the reference to the map of arguments, which is
  made at the start of the call.
\<close>

definition SelectBuilder_Build_m :: "mstore \<Rightarrow> mref NamedPredicateOf SelectBuilder \<Rightarrow> mstore \<times> string \<times> mref" where
  "SelectBuilder_Build_m h b =
     (let (h, args) = make_m h;
          sb = (if s_distinct b then ''SELECT DISTINCT '' else ''SELECT '');
          sb = sb @ Join (s_fields b) '', '';
          sb = sb @ '' FROM '';
          sb = sb @ s_from b;
          sb = foldl writeJoin sb (s_joins b);
          (h, sb, counter) =
            (if length (s_where b) > 0
             then writePredicates_m h (sb @ '' WHERE '') (s_where b) 0 args
             else (h, sb, 0));
          sb = (if length (s_groupBy b) > 0
                then sb @ '' GROUP BY '' @ Join (s_groupBy b) '', '' else sb);
          (h, sb, counter) =
            (if length (s_having b) > 0
             then writePredicates_m h (sb @ '' HAVING '') (s_having b) counter args
             else (h, sb, counter));
          sb = (if length (s_orderBy b) > 0
                then sb @ '' ORDER BY '' @
                     Join (map (\<lambda>ob. o_col ob @ '' '' @ OrderDir_String (o_dir ob)) (s_orderBy b)) '', ''
                else sb);
          (h, sb, counter) =
            (case s_limit b of
               Some n \<Rightarrow> (let (counter, name) = nextParam counter
                          in (store_m h args name (VInt (sint n)), sb @ '' LIMIT @'' @ name, counter))
             | None \<Rightarrow> (h, sb, counter));
          (h, sb, counter) =
            (case s_offset b of
               Some n \<Rightarrow> (let (counter, name) = nextParam counter
                          in (store_m h args name (VInt (sint n)), sb @ '' OFFSET @'' @ name, counter))
             | None \<Rightarrow> (h, sb, counter))
      in (h, sb, MapAt args))"

fun updateSets_m :: "mstore \<Rightarrow> setClause list \<Rightarrow> string list \<Rightarrow> nat \<Rightarrow> goint \<Rightarrow> mstore \<times> string list \<times> goint" where
  "updateSets_m h [] setParts args counter = (h, setParts, counter)"
| "updateSets_m h (s # ss) setParts args counter =
     (let (counter, name) = nextParam counter
      in updateSets_m (store_m h args name (sc_val s)) ss
           (setParts @ [sc_col s @ '' = @'' @ name]) args counter)"

definition UpdateBuilder_Build_m :: "mstore \<Rightarrow> mref NamedPredicateOf UpdateBuilder \<Rightarrow> mstore \<times> string \<times> mref" where
  "UpdateBuilder_Build_m h b =
     (let (h, args) = make_m h;
          sb = ''UPDATE '' @ u_table b @ '' SET '';
          (h, setParts, counter) = updateSets_m h (u_sets b) [] args 0;
          sb = sb @ Join setParts '', '';
          (h, sb, counter) =
            (if length (u_where b) > 0
             then writePredicates_m h (sb @ '' WHERE '') (u_where b) counter args
             else (h, sb, counter));
          sb = (if length (u_returning b) > 0
                then sb @ '' RETURNING '' @ Join (u_returning b) '', '' else sb)
      in (h, sb, MapAt args))"

definition DeleteBuilder_Build_m :: "mstore \<Rightarrow> mref NamedPredicateOf DeleteBuilder \<Rightarrow> mstore \<times> string \<times> mref" where
  "DeleteBuilder_Build_m h b =
     (let (h, args) = make_m h;
          sb = ''DELETE FROM '' @ d_table b;
          (h, sb, counter) =
            (if length (d_where b) > 0
             then writePredicates_m h (sb @ '' WHERE '') (d_where b) 0 args
             else (h, sb, 0));
          sb = (if length (d_returning b) > 0
                then sb @ '' RETURNING '' @ Join (d_returning b) '', '' else sb)
      in (h, sb, MapAt args))"

datatype Builder_m =
    SelectM "mref NamedPredicateOf SelectBuilder"
  | UpdateM "mref NamedPredicateOf UpdateBuilder"
  | DeleteM "mref NamedPredicateOf DeleteBuilder"

fun Build_m :: "mstore \<Rightarrow> Builder_m \<Rightarrow> mstore \<times> string \<times> mref" where
  "Build_m h (SelectM b) = SelectBuilder_Build_m h b"
| "Build_m h (UpdateM b) = UpdateBuilder_Build_m h b"
| "Build_m h (DeleteM b) = DeleteBuilder_Build_m h b"

text \<open>
  \<open>refsOf b\<close> are the maps that a builder holds, \<open>wfBuilder_m h b\<close> says that they exist
  in the store, and \<open>readBuilder_m h b\<close> is the builder with every reference replaced by
  the map it refers to. \<open>kept_m k h h' a\<close> relates the store before some steps of
  \<open>Build\<close> to the store after them and the address \<open>a\<close> of the map that collects the
  arguments: no map is lost, the first \<open>k\<close> maps are unchanged, and \<open>a\<close> is the address
  of a map that is not one of them.
\<close>

definition wfRef :: "mstore \<Rightarrow> mref \<Rightarrow> bool" where
  "wfRef h r = (case r of NilMap \<Rightarrow> True | MapAt a \<Rightarrow> a < length h)"

definition belowRef :: "nat \<Rightarrow> mref \<Rightarrow> bool" where
  "belowRef k r = (case r of NilMap \<Rightarrow> True | MapAt a \<Rightarrow> a < k)"

fun refsOf :: "Builder_m \<Rightarrow> mref set" where
  "refsOf (SelectM b) = (\<Union>p\<in>set (s_where b) \<union> set (s_having b). set_NamedPredicateOf p)"
| "refsOf (UpdateM b) = (\<Union>p\<in>set (u_where b). set_NamedPredicateOf p)"
| "refsOf (DeleteM b) = (\<Union>p\<in>set (d_where b). set_NamedPredicateOf p)"

definition wfBuilder_m :: "mstore \<Rightarrow> Builder_m \<Rightarrow> bool" where
  "wfBuilder_m h b = (\<forall>r\<in>refsOf b. wfRef h r)"

fun readBuilder_m :: "mstore \<Rightarrow> Builder_m \<Rightarrow> NamedBuilder" where
  "readBuilder_m h (SelectM b) =
     SelectBN \<lparr>s_distinct = s_distinct b, s_fields = s_fields b, s_from = s_from b,
               s_joins = s_joins b, s_where = map (map_NamedPredicateOf (read_m h)) (s_where b),
               s_groupBy = s_groupBy b,
               s_having = map (map_NamedPredicateOf (read_m h)) (s_having b),
               s_orderBy = s_orderBy b, s_limit = s_limit b, s_offset = s_offset b\<rparr>"
| "readBuilder_m h (UpdateM b) =
     UpdateBN \<lparr>u_table = u_table b, u_sets = u_sets b,
               u_where = map (map_NamedPredicateOf (read_m h)) (u_where b),
               u_returning = u_returning b\<rparr>"
| "readBuilder_m h (DeleteM b) =
     DeleteBN \<lparr>d_table = d_table b, d_where = map (map_NamedPredicateOf (read_m h)) (d_where b),
               d_returning = d_returning b\<rparr>"

definition kept_m :: "nat \<Rightarrow> mstore \<Rightarrow> mstore \<Rightarrow> nat \<Rightarrow> bool" where
  "kept_m k h h' a = (length h \<le> length h' \<and> take k h' = take k h \<and> a < length h' \<and> k \<le> a)"

section \<open>Offsets advance by the number of values\<close>

lemma offset_advance_all:
  "snd (snd (ToSQL p c)) = c + of_nat (length (fst (snd (ToSQL p c))))"
  "snd (snd (combinePredicates ps op c)) = c + of_nat (length (fst (snd (combinePredicates ps op c))))"
  "snd (snd (combineLoop ps parts allArgs c)) + of_nat (length allArgs)
     = c + of_nat (length (fst (snd (combineLoop ps parts allArgs c))))"
proof (induction p c and ps op c and ps parts allArgs c rule: ToSQL_combinePredicates_combineLoop.induct)
  case (19 p q ps op offset)
  then show ?case
    by (simp add: case_prod_unfold Let_def del: combineLoop.simps)
next
  case (21 p ps parts allArgs cur)
  obtain sql args nxt where r: "ToSQL p cur = (sql, args, nxt)"
    by (cases "ToSQL p cur") auto
  from "21.IH"(1) r have n: "nxt = cur + of_nat (length args)" by simp
  from "21.IH"(2)[OF refl r[symmetric] refl] r n show ?case
    by (simp add: algebra_simps)
qed (simp_all add: case_prod_unfold Let_def)

text \<open>
  Claim C9. For every predicate \<open>p\<close> built from the constructors and every starting offset
  \<open>c\<close>, positional rendering returns the offset \<open>c\<close> plus the number of argument values
  it returns (the addition is Go's \<open>int\<close> addition); \<open>IsNull\<close> and \<open>IsNotNull\<close>
  return no values and leave the offset unchanged.
\<close>

theorem C9_offset_advances_by_values:
  "snd (snd (ToSQL p c)) = c + of_nat (length (fst (snd (ToSQL p c))))
   \<and> ToSQL (isNullPred col) c = (col @ '' IS NULL'', [], c)
   \<and> ToSQL (isNotNullPred col) c = (col @ '' IS NOT NULL'', [], c)"
  by (simp add: offset_advance_all(1))

section \<open>Scanning for markers\<close>


lemma takeWhile_append_stop:
  "\<not> startsWith cls rest \<Longrightarrow> takeWhile cls (cs @ rest) = takeWhile cls cs"
  by (induction cs) (auto simp: startsWith_def split: list.splits)

lemma dropWhile_append_stop:
  "\<not> startsWith cls rest \<Longrightarrow> dropWhile cls (cs @ rest) = dropWhile cls cs @ rest"
  by (induction cs) (auto simp: startsWith_def split: list.splits)

lemma findAll_append:
  "\<not> startsWith cls rest \<Longrightarrow>
     findAll sg cls (pre @ rest) = findAll sg cls pre @ findAll sg cls rest"
proof (induction sg cls pre rule: findAll.induct)
  case (1 sg cls)
  then show ?case by simp
next
  case (2 sg cls c cs)
  show ?case
  proof (cases "c = sg \<and> takeWhile cls cs \<noteq> []")
    case True
    with 2 show ?thesis
      by (simp add: takeWhile_append_stop dropWhile_append_stop)
  next
    case False
    with 2 show ?thesis
      by (simp add: takeWhile_append_stop)
  qed
qed

lemma findAll_marker:
  assumes "ds \<noteq> []" "list_all cls ds" "\<not> startsWith cls rest"
  shows "findAll sg cls (sg # ds @ rest) = Match (sg # ds) # findAll sg cls rest"
proof -
  have t: "takeWhile cls (ds @ rest) = ds"
    using assms(2,3) by (induction ds) (auto simp: startsWith_def split: list.splits)
  have d: "dropWhile cls (ds @ rest) = rest"
    using assms(2,3) by (induction ds) (auto simp: startsWith_def split: list.splits)
  show ?thesis using assms(1) by (simp add: t d)
qed

lemma findAll_markerFree:
  "markerFree sg cls s \<Longrightarrow> findAll sg cls s = map Lit s"
proof (induction sg cls s rule: markerFree.induct)
  case (3 sg cls c d cs)
  then show ?case by auto
qed simp_all

lemma replaceSegs_append:
  "replaceSegs f (a @ b) st =
     (let (o1, s1) = replaceSegs f a st; (o2, s2) = replaceSegs f b s1 in (o1 @ o2, s2))"
proof (induction a arbitrary: st)
  case Nil
  then show ?case by (simp add: case_prod_unfold)
next
  case (Cons x a)
  then show ?case by (cases x) (simp_all add: case_prod_unfold Let_def)
qed

lemma replaceSegs_lits: "replaceSegs f (map Lit s) st = (s, st)"
  by (induction s) simp_all

section \<open>Raw predicates\<close>

lemma dollar_not_digit: "\<not> startsWith isDigit (CHR ''$'' # s)"
  by (simp add: startsWith_def isDigit_def)

lemma Atoi_in_range:
  assumes "ds \<noteq> []" "list_all isDigit ds" "digits_val ds < 2 ^ 63"
  shows "fst (Atoi ds) = of_nat (digits_val ds)"
proof -
  have "\<not> digits_val ds > 2 ^ 63 - 1" using assms(3) by simp
  then show ?thesis using assms(1,2) by (simp add: Atoi_def)
qed

lemma raw_markerFree:
  "markerFree (CHR ''$'') isDigit s \<Longrightarrow> fst (ToSQL (rawPred s vs) c) = s"
  by (simp add: ReplaceAllStringFunc_def placeholderRe_def findAll_markerFree replaceSegs_lits)

lemma raw_lone_dollar:
  assumes "\<not> startsWith isDigit rest"
  shows "fst (ToSQL (rawPred (pre @ ''$'' @ rest) vs) c)
           = fst (ToSQL (rawPred pre vs) c) @ ''$'' @ fst (ToSQL (rawPred rest vs) c)"
proof -
  have t: "takeWhile isDigit rest = []"
    using assms by (cases rest) (simp_all add: startsWith_def)
  have "findAll (CHR ''$'') isDigit (pre @ (CHR ''$'' # rest))
          = findAll (CHR ''$'') isDigit pre @ findAll (CHR ''$'') isDigit (CHR ''$'' # rest)"
    by (rule findAll_append) (rule dollar_not_digit)
  also have "findAll (CHR ''$'') isDigit (CHR ''$'' # rest)
          = Lit (CHR ''$'') # findAll (CHR ''$'') isDigit rest"
    by (simp add: t)
  finally show ?thesis
    by (simp add: ReplaceAllStringFunc_def placeholderRe_def replaceSegs_append case_prod_unfold)
qed

lemma raw_marker_step:
  assumes "markerFree (CHR ''$'') isDigit pre" "ds \<noteq> []" "list_all isDigit ds"
    and "digits_val ds < 2 ^ 63" "\<not> startsWith isDigit rest"
  shows "fst (ToSQL (rawPred (pre @ ''$'' @ ds @ rest) vs) c)
           = pre @ ''$'' @ fmt_d (of_nat (digits_val ds) + c - 1) @ fst (ToSQL (rawPred rest vs) c)"
proof -
  have "findAll (CHR ''$'') isDigit (pre @ (CHR ''$'' # ds @ rest))
          = findAll (CHR ''$'') isDigit pre @ findAll (CHR ''$'') isDigit (CHR ''$'' # ds @ rest)"
    by (rule findAll_append) (rule dollar_not_digit)
  also have "findAll (CHR ''$'') isDigit pre = map Lit pre"
    using assms(1) by (rule findAll_markerFree)
  also have "findAll (CHR ''$'') isDigit (CHR ''$'' # ds @ rest)
          = Match (CHR ''$'' # ds) # findAll (CHR ''$'') isDigit rest"
    using assms(2,3,5) by (rule findAll_marker)
  finally have f: "findAll (CHR ''$'') isDigit (pre @ (CHR ''$'' # ds @ rest))
          = map Lit pre @ Match (CHR ''$'' # ds) # findAll (CHR ''$'') isDigit rest" .
  have r: "rawRepl c (CHR ''$'' # ds) () = (''$'' @ fmt_d (of_nat (digits_val ds) + c - 1), ())"
    using Atoi_in_range[OF assms(2,3,4)] by (simp add: rawRepl_def)
  show ?thesis
    by (simp add: ReplaceAllStringFunc_def placeholderRe_def f replaceSegs_append replaceSegs_lits r case_prod_unfold)
qed

lemma raw_shift_all:
  "markersFit ms tail \<Longrightarrow> fst (ToSQL (rawPred (srcText ms tail) vs) c) = shiftedText c ms tail"
proof (induction ms)
  case Nil
  then show ?case using raw_markerFree[of tail vs c] by simp
next
  case (Cons m ms)
  obtain pre ds where m: "m = (pre, ds)" by (cases m)
  from Cons.prems m have fit: "markerFree (CHR ''$'') isDigit pre" "ds \<noteq> []" "list_all isDigit ds"
      "digits_val ds < 2 ^ 63" "\<not> startsWith isDigit (srcText ms tail)" "markersFit ms tail"
    by simp_all
  have "fst (ToSQL (rawPred (pre @ ''$'' @ ds @ srcText ms tail) vs) c)
          = pre @ ''$'' @ fmt_d (of_nat (digits_val ds) + c - 1)
              @ fst (ToSQL (rawPred (srcText ms tail) vs) c)"
    using fit(1-5) by (rule raw_marker_step)
  then show ?case using Cons.IH[OF fit(6)] m by simp
qed

lemma splitMarkers_match:
  "c = CHR ''$'' \<and> takeWhile isDigit cs \<noteq> [] \<Longrightarrow>
     splitMarkers pre (c # cs)
       = ((pre, takeWhile isDigit cs) # fst (splitMarkers [] (dropWhile isDigit cs)),
          snd (splitMarkers [] (dropWhile isDigit cs)))"
  by (simp add: case_prod_unfold Let_def)

lemma splitMarkers_other:
  "\<not> (c = CHR ''$'' \<and> takeWhile isDigit cs \<noteq> []) \<Longrightarrow>
     splitMarkers pre (c # cs) = splitMarkers (pre @ [c]) cs"
  by auto

lemma splitMarkers_srcText:
  "srcText (fst (splitMarkers pre s)) (snd (splitMarkers pre s)) = pre @ s"
proof (induction pre s rule: splitMarkers.induct)
  case (1 pre)
  then show ?case by simp
next
  case (2 pre c cs)
  show ?case
  proof (cases "c = CHR ''$'' \<and> takeWhile isDigit cs \<noteq> []")
    case True
    show ?thesis
      unfolding splitMarkers_match[OF True]
      using "2.IH"(1)[OF True] True by simp
  next
    case False
    show ?thesis
      unfolding splitMarkers_other[OF False]
      using "2.IH"(2)[OF False] by simp
  qed
qed

lemma markerFree_snoc:
  "markerFree sg cls (pre @ [c])
     \<longleftrightarrow> markerFree sg cls pre \<and> \<not> (pre \<noteq> [] \<and> last pre = sg \<and> cls c)"
  by (induction sg cls pre rule: markerFree.induct) auto

lemma startsWith_takeWhile: "startsWith cls s \<longleftrightarrow> takeWhile cls s \<noteq> []"
  by (cases s) (simp_all add: startsWith_def)

lemma not_startsWith_dropWhile: "\<not> startsWith cls (dropWhile cls s)"
  by (induction s) (simp_all add: startsWith_def)

lemma splitMarkers_fit:
  "markerFree (CHR ''$'') isDigit pre
   \<Longrightarrow> \<not> (pre \<noteq> [] \<and> last pre = CHR ''$'' \<and> startsWith isDigit s)
   \<Longrightarrow> list_all (\<lambda>m. digits_val (snd m) < 2 ^ 63) (fst (splitMarkers pre s))
   \<Longrightarrow> markersFit (fst (splitMarkers pre s)) (snd (splitMarkers pre s))"
proof (induction pre s rule: splitMarkers.induct)
  case (1 pre)
  then show ?case by simp
next
  case (2 pre c cs)
  show ?case
  proof (cases "c = CHR ''$'' \<and> takeWhile isDigit cs \<noteq> []")
    case True
    let ?r = "splitMarkers [] (dropWhile isDigit cs)"
    from "2.prems"(3) have inr: "digits_val (takeWhile isDigit cs) < 2 ^ 63"
      and rest: "list_all (\<lambda>m. digits_val (snd m) < 2 ^ 63) (fst ?r)"
      unfolding splitMarkers_match[OF True] by simp_all
    have fit: "markersFit (fst ?r) (snd ?r)"
      using "2.IH"(1)[OF True] rest by simp
    have src: "srcText (fst ?r) (snd ?r) = dropWhile isDigit cs"
      using splitMarkers_srcText[of "[]" "dropWhile isDigit cs"] by simp
    have digs: "list_all isDigit (takeWhile isDigit cs)"
      by (simp add: list_all_iff) (meson set_takeWhileD)
    show ?thesis
      unfolding splitMarkers_match[OF True]
      using True "2.prems"(1) inr fit digs
      by (simp add: src not_startsWith_dropWhile)
  next
    case False
    have mf: "markerFree (CHR ''$'') isDigit (pre @ [c])"
      using "2.prems"(1,2) by (auto simp: markerFree_snoc startsWith_def)
    have nl: "\<not> (pre @ [c] \<noteq> [] \<and> last (pre @ [c]) = CHR ''$'' \<and> startsWith isDigit cs)"
      using False by (simp add: startsWith_takeWhile)
    from "2.prems"(3)
    have rest: "list_all (\<lambda>m. digits_val (snd m) < 2 ^ 63) (fst (splitMarkers (pre @ [c]) cs))"
      unfolding splitMarkers_other[OF False] .
    show ?thesis
      unfolding splitMarkers_other[OF False]
      using "2.IH"(2)[OF False mf nl rest] .
  qed
qed

text \<open>
  Every fragment is of the form to which the statement on Raw predicates applies: its
  markers cut it into \<open>srcText ms tail\<close>, and \<open>markersFit ms tail\<close> holds as soon as
  every marker index is below \<open>2^63\<close>.
\<close>

lemma raw_fragment_decomposes:
  "srcText (fst (splitMarkers [] s)) (snd (splitMarkers [] s)) = s"
  "list_all (\<lambda>m. digits_val (snd m) < 2 ^ 63) (fst (splitMarkers [] s))
     \<Longrightarrow> markersFit (fst (splitMarkers [] s)) (snd (splitMarkers [] s))"
  using splitMarkers_srcText[of "[]" s] splitMarkers_fit[of "[]" s] by simp_all

text \<open>
  Claim C3, as amended. For every positional Raw predicate whose fragment is the text
  \<open>pre\<^sub>1 $n\<^sub>1 pre\<^sub>2 $n\<^sub>2 \<dots> tail\<close> (every marker listed, each index \<open>n\<^sub>i\<close> a decimal number
  below \<open>2^63\<close>, so that it is a Go \<open>int\<close>), every argument list \<open>vs\<close> and every starting
  offset \<open>c\<close>, rendering replaces each marker \<open>$n\<^sub>i\<close> by \<open>$(n\<^sub>i + c - 1)\<close> (in Go \<open>int\<close>
  arithmetic), leaves the text between the markers unchanged, returns exactly \<open>vs\<close>
  and returns the offset \<open>c + length vs\<close>. The replacement of a marker depends only on
  its index and on \<open>c\<close>, so two occurrences of the same marker get the same number.
\<close>

theorem C3_raw_markers_shifted:
  assumes "markersFit ms tail"
  shows "ToSQL (rawPred (srcText ms tail) vs) c
           = (shiftedText c ms tail, vs, c + of_nat (length vs))"
  using raw_shift_all[OF assms, of vs c] by simp

theorem C3_raw_markers_shifted_witness:
  "markersFit [(''(sender_id = '', ''1''), ('' OR receiver_id = '', ''1'')] '')''
   \<and> ToSQL (rawPred ''(sender_id = $1 OR receiver_id = $1)'' [VInt 42]) 3
       = (''(sender_id = $3 OR receiver_id = $3)'', [VInt 42], 4)"
proof -
  have fit: "markersFit [(''(sender_id = '', ''1''), ('' OR receiver_id = '', ''1'')] '')''"
    by (simp add: isDigit_def startsWith_def digits_val_def digit_val_def)
  show ?thesis
    using fit C3_raw_markers_shifted[OF fit, of "[VInt 42]" 3]
    by (simp add: digits_val_def digit_val_def fmt_d_def showInt_def showNat.simps)
qed

text \<open>
  Claim C3 as stated fails: the marker \<open>$9223372036854775808\<close> rendered at offset 1 should
  stay \<open>$9223372036854775808\<close>, but the index does not fit Go's \<open>int\<close>, \<open>Atoi\<close> reports a
  range error that is discarded, and the marker is rendered as \<open>$9223372036854775807\<close>.
\<close>

theorem C3_counterexample:
  "fst (ToSQL (rawPred ''$9223372036854775808'' []) 1) = ''$9223372036854775807''
   \<and> fst (ToSQL (rawPred ''$9223372036854775808'' []) 1)
       \<noteq> ''$'' @ showInt (9223372036854775808 + 1 - 1)"
  by (simp add: ReplaceAllStringFunc_def placeholderRe_def rawRepl_def isDigit_def Atoi_def
      digits_val_def digit_val_def fmt_d_def showInt_def showNat.simps)

text \<open>
  Claim C6, as amended. Rendering a Raw predicate has no error result. A \<open>$\<close> that is not
  directly followed by a decimal digit (a marker with a non-numeric index, or a lone
  \<open>$\<close>) is not a marker for the renderer: it is copied to the output unchanged, the text
  before it and the text after it are rendered as they would be on their own, and the
  arguments and the offset \<open>c + length vs\<close> are returned as for any Raw predicate.
\<close>

theorem C6_raw_non_numeric_marker_kept:
  assumes "\<not> startsWith isDigit rest"
  shows "ToSQL (rawPred (pre @ ''$'' @ rest) vs) c
           = (fst (ToSQL (rawPred pre vs) c) @ ''$'' @ fst (ToSQL (rawPred rest vs) c),
              vs, c + of_nat (length vs))"
  using raw_lone_dollar[OF assms, of pre vs c] by simp

theorem C6_raw_non_numeric_marker_kept_witness:
  "\<not> startsWith isDigit ''abc AND y = $1''
   \<and> ToSQL (rawPred ''x = $abc AND y = $1'' [VInt 7]) 4 = (''x = $abc AND y = $4'', [VInt 7], 5)"
proof -
  have h: "\<not> startsWith isDigit ''abc AND y = $1''"
    by (simp add: startsWith_def isDigit_def)
  show ?thesis
    using h C6_raw_non_numeric_marker_kept[OF h, of "''x = ''" "[VInt 7]" 4]
    by (simp add: ReplaceAllStringFunc_def placeholderRe_def rawRepl_def isDigit_def Atoi_def
        digits_val_def digit_val_def fmt_d_def showInt_def showNat.simps)
qed

text \<open>
  Claim C6 as stated fails: a fragment with the non-numeric marker \<open>$abc\<close> is rendered
  without any error, the marker left in place; and a marker whose index \<open>Atoi\<close> rejects
  (a range error) is rendered with another number, again without any error.
\<close>

theorem C6_counterexample:
  "ToSQL (rawPred ''x = $abc'' [VInt 1]) 1 = (''x = $abc'', [VInt 1], 2)
   \<and> snd (Atoi ''99999999999999999999'')
   \<and> ToSQL (rawPred ''x = $99999999999999999999'' [VInt 1]) 1
       = (''x = $9223372036854775807'', [VInt 1], 2)"
  by (simp add: ReplaceAllStringFunc_def placeholderRe_def rawRepl_def isDigit_def Atoi_def
      digits_val_def digit_val_def fmt_d_def showInt_def showNat.simps)

section \<open>Combining predicates\<close>

lemma chainEnd_Cons:
  "chainEnd (r # rs) c = chainEnd rs (snd (snd r))"
  by (simp add: chainEnd_def)

lemma chainArgs_Cons:
  "chainArgs (r # rs) = fst (snd r) @ chainArgs rs"
  by (simp add: chainArgs_def)

lemma chainArgs_Nil: "chainArgs [] = []"
  by (simp add: chainArgs_def)




text \<open>
  The nested example: \<open>And(Eq("a",1), Or(Eq("b",2), Eq("c",3)))\<close> at cursor 1, in both
  variants (the named counter starts at 0).
\<close>

lemma combine_example:
  "ToSQL (andPred [eqPred ''a'' (VInt 1), orPred [eqPred ''b'' (VInt 2), eqPred ''c'' (VInt 3)]]) 1
     = (''(a = $1 AND (b = $2 OR c = $3))'', [VInt 1, VInt 2, VInt 3], 4)"
  "ToSQL_named (andPredN [eqPredN ''a'' (VInt 1),
                          orPredN [eqPredN ''b'' (VInt 2), eqPredN ''c'' (VInt 3)]]) 0
     = (''(a = @p1 AND (b = @p2 OR c = @p3))'',
        [''p1'' \<mapsto> VInt 1, ''p2'' \<mapsto> VInt 2, ''p3'' \<mapsto> VInt 3], 3)"
  by (simp_all add: cmpN_def nextParam_def mergeArgs_def fmt_d_def showInt_def showNat.simps)

section \<open>Clause order in the statement builders\<close>

lemma Join_Cons:
  "Join (x # xs) sep = x @ (if xs = [] then [] else sep @ Join xs sep)"
  by (cases xs) simp_all

lemma renderChain_Nil_iff: "renderChain ps c = [] \<longleftrightarrow> ps = []"
  by (cases ps) (simp_all add: Let_def)

lemma renderChain_named_Nil_iff: "renderChain_named ps c = [] \<longleftrightarrow> ps = []"
  by (cases ps) (simp_all add: Let_def)

lemma writePredicatesFrom_chain:
  "writePredicatesFrom i sb ps off args =
     (sb @ (if i > 0 \<and> ps \<noteq> [] then '' AND '' else []) @ Join (map fst (renderChain ps off)) '' AND '',
      chainEnd (renderChain ps off) off, args @ chainArgs (renderChain ps off))"
proof (induction ps arbitrary: i sb off args)
  case Nil
  then show ?case by (simp add: chainEnd_def chainArgs_Nil)
next
  case (Cons p ps)
  obtain sql pArgs nxt where r: "ToSQL p off = (sql, pArgs, nxt)"
    by (cases "ToSQL p off") auto
  show ?case
    by (simp add: r Cons.IH chainEnd_Cons chainArgs_Cons Join_Cons renderChain_Nil_iff)
qed

lemma writePredicates_chain:
  "ps \<noteq> [] \<Longrightarrow> writePredicates (sb @ kw) ps off args =
     (sb @ clauseText kw (renderChain ps off), chainEnd (renderChain ps off) off,
      args @ chainArgs (renderChain ps off))"
  by (simp add: writePredicates_def writePredicatesFrom_chain clauseText_def renderChain_Nil_iff)

lemma writePredicatesFrom_named_chain:
  "writePredicatesFrom_named i sb ps off args =
     (sb @ (if i > 0 \<and> ps \<noteq> [] then '' AND '' else [])
         @ Join (map fst (renderChain_named ps off)) '' AND '',
      chainEnd (renderChain_named ps off) off, chainArgs_named args (renderChain_named ps off))"
proof (induction ps arbitrary: i sb off args)
  case Nil
  then show ?case by (simp add: chainEnd_def chainArgs_named_def)
next
  case (Cons p ps)
  obtain sql pArgs nxt where r: "ToSQL_named p off = (sql, pArgs, nxt)"
    by (cases "ToSQL_named p off") auto
  show ?case
    by (simp add: r Cons.IH chainEnd_Cons chainArgs_named_def mergeArgs_def Join_Cons
        renderChain_named_Nil_iff)
qed

lemma writePredicates_named_chain:
  "ps \<noteq> [] \<Longrightarrow> writePredicates_named (sb @ kw) ps off args =
     (sb @ clauseText kw (renderChain_named ps off), chainEnd (renderChain_named ps off) off,
      chainArgs_named args (renderChain_named ps off))"
  by (simp add: writePredicates_named_def writePredicatesFrom_named_chain clauseText_def
      renderChain_named_Nil_iff)

lemma clauseText_Nil: "clauseText kw [] = []"
  by (simp add: clauseText_def)

lemma foldl_writeJoin:
  "foldl writeJoin sb js =
     sb @ concat (map (\<lambda>j. '' '' @ JoinType_String (joinType j) @ '' '' @ j_table j
                          @ '' ON '' @ j_left j @ '' = '' @ j_right j) js)"
  by (induction js arbitrary: sb) (simp_all add: writeJoin_def)

lemma updateSets_closed:
  "updateSets ss setParts args off =
     (setParts @ setTexts off ss, args @ map sc_val ss, off + of_nat (length ss))"
  by (induction ss arbitrary: setParts args off) (simp_all add: algebra_simps)

lemma updateSets_named_closed:
  "updateSets_named ss setParts args c =
     (setParts @ setTexts_named c ss, setArgs_named c ss args, c + of_nat (length ss))"
  by (induction ss arbitrary: setParts args c) (simp_all add: nextParam_def algebra_simps)

lemma insertRow_args:
  "fst (snd (insertRow vs placeholders args off)) = args @ vs"
  by (induction vs arbitrary: placeholders args off) simp_all

lemma insertRows_args:
  "fst (snd (insertRows i rows sb args off)) = args @ concat rows"
proof (induction rows arbitrary: i sb args off)
  case Nil
  then show ?case by simp
next
  case (Cons row rows)
  obtain ph a o' where r: "insertRow row [] args off = (ph, a, o')"
    by (cases "insertRow row [] args off") auto
  from insertRow_args[of row "[]" args off] r have a: "a = args @ row" by simp
  show ?case by (simp add: r a Cons.IH Let_def)
qed

lemma SelectBuilder_Build_closed:
  "SelectBuilder_Build b =
     (let W = renderChain (s_where b) 1; cW = chainEnd W 1;
          H = renderChain (s_having b) cW; cH = chainEnd H cW;
          cL = (case s_limit b of None \<Rightarrow> cH | Some n \<Rightarrow> cH + 1)
      in (selectHead b @ clauseText '' WHERE '' W @ listText '' GROUP BY '' (s_groupBy b)
            @ clauseText '' HAVING '' H @ orderByText b
            @ (case s_limit b of None \<Rightarrow> [] | Some n \<Rightarrow> '' LIMIT $'' @ fmt_d cH)
            @ (case s_offset b of None \<Rightarrow> [] | Some n \<Rightarrow> '' OFFSET $'' @ fmt_d cL),
          chainArgs W @ chainArgs H
            @ (case s_limit b of None \<Rightarrow> [] | Some n \<Rightarrow> [VInt (sint n)])
            @ (case s_offset b of None \<Rightarrow> [] | Some n \<Rightarrow> [VInt (sint n)])))"
proof -
  have w: "(if length (s_where b) > 0
            then writePredicates (sb @ '' WHERE '') (s_where b) 1 []
            else (sb, 1, []))
           = (sb @ clauseText '' WHERE '' (renderChain (s_where b) 1),
              chainEnd (renderChain (s_where b) 1) 1, chainArgs (renderChain (s_where b) 1))" for sb
    by (cases "s_where b = []")
       (simp_all add: writePredicates_chain clauseText_Nil chainEnd_def chainArgs_Nil)
  have h: "(if length (s_having b) > 0
            then writePredicates (sb @ '' HAVING '') (s_having b) off args
            else (sb, off, args))
           = (sb @ clauseText '' HAVING '' (renderChain (s_having b) off),
              chainEnd (renderChain (s_having b) off) off,
              args @ chainArgs (renderChain (s_having b) off))" for sb off args
    by (cases "s_having b = []")
       (simp_all add: writePredicates_chain clauseText_Nil chainEnd_def chainArgs_Nil)
  show ?thesis
    unfolding SelectBuilder_Build_def Let_def w h
    by (simp add: selectHead_def orderByText_def listText_def foldl_writeJoin
        split: option.splits)
qed

lemma UpdateBuilder_Build_closed:
  "UpdateBuilder_Build b =
     (let W = renderChain (u_where b) (1 + of_nat (length (u_sets b)))
      in (''UPDATE '' @ u_table b @ '' SET '' @ Join (setTexts 1 (u_sets b)) '', ''
            @ clauseText '' WHERE '' W @ listText '' RETURNING '' (u_returning b),
          map sc_val (u_sets b) @ chainArgs W))"
proof -
  have w: "(if length (u_where b) > 0
            then writePredicates (sb @ '' WHERE '') (u_where b) off args
            else (sb, off, args))
           = (sb @ clauseText '' WHERE '' (renderChain (u_where b) off),
              chainEnd (renderChain (u_where b) off) off,
              args @ chainArgs (renderChain (u_where b) off))" for sb off args
    by (cases "u_where b = []")
       (simp_all add: writePredicates_chain clauseText_Nil chainEnd_def chainArgs_Nil)
  show ?thesis
    unfolding UpdateBuilder_Build_def Let_def updateSets_closed w
    by (simp add: listText_def)
qed

lemma DeleteBuilder_Build_closed:
  "DeleteBuilder_Build b =
     (let W = renderChain (d_where b) 1
      in (''DELETE FROM '' @ d_table b @ clauseText '' WHERE '' W
            @ listText '' RETURNING '' (d_returning b),
          chainArgs W))"
proof -
  have w: "(if length (d_where b) > 0
            then writePredicates (sb @ '' WHERE '') (d_where b) 1 []
            else (sb, 1, []))
           = (sb @ clauseText '' WHERE '' (renderChain (d_where b) 1),
              chainEnd (renderChain (d_where b) 1) 1, chainArgs (renderChain (d_where b) 1))" for sb
    by (cases "d_where b = []")
       (simp_all add: writePredicates_chain clauseText_Nil chainEnd_def chainArgs_Nil)
  show ?thesis
    unfolding DeleteBuilder_Build_def Let_def w
    by (simp add: listText_def)
qed

lemma insertRow_closed:
  "insertRow row placeholders args off =
     (placeholders @ markers off (length row), args @ row, off + of_nat (length row))"
  by (induction row arbitrary: placeholders args off) (simp_all add: algebra_simps)

lemma rowTexts_Nil_iff: "rowTexts c rows = [] \<longleftrightarrow> rows = []"
  by (cases rows) simp_all

lemma insertRows_closed:
  "insertRows i rows sb args off =
     (sb @ (if i > 0 \<and> rows \<noteq> [] then '', '' else []) @ Join (rowTexts off rows) '', '',
      args @ concat rows, off + of_nat (length (concat rows)))"
proof (induction rows arbitrary: i sb args off)
  case Nil
  then show ?case by simp
next
  case (Cons row rows)
  show ?case
    by (simp add: insertRow_closed Cons.IH Join_Cons rowTexts_Nil_iff algebra_simps)
qed

lemma InsertBuilder_Build_closed:
  "InsertBuilder_Build b =
     (''INSERT INTO '' @ i_table b
        @ (if i_columns b = [] then [] else '' ('' @ Join (i_columns b) '', '' @ '')'')
        @ '' VALUES '' @ Join (rowTexts 1 (i_values b)) '', '' @ insertTail b,
      concat (i_values b))"
  unfolding InsertBuilder_Build_def Let_def insertRows_closed
  by (simp add: insertTail_def listText_def)

lemma renderChain_append:
  "renderChain (ps @ qs) c = renderChain ps c @ renderChain qs (chainEnd (renderChain ps c) c)"
proof (induction ps arbitrary: c)
  case Nil
  then show ?case by (simp add: chainEnd_def)
next
  case (Cons p ps)
  show ?case by (simp add: Let_def Cons.IH chainEnd_Cons)
qed

lemma renderChain_named_append:
  "renderChain_named (ps @ qs) c
     = renderChain_named ps c @ renderChain_named qs (chainEnd (renderChain_named ps c) c)"
proof (induction ps arbitrary: c)
  case Nil
  then show ?case by (simp add: chainEnd_def)
next
  case (Cons p ps)
  show ?case by (simp add: Let_def Cons.IH chainEnd_Cons)
qed

lemma renderChain_length: "length (renderChain ps c) = length ps"
  by (induction ps arbitrary: c) (simp_all add: Let_def)

lemma renderChain_named_length: "length (renderChain_named ps c) = length ps"
  by (induction ps arbitrary: c) (simp_all add: Let_def)

lemma rowTexts_length: "length (rowTexts c rows) = length rows"
  by (induction rows arbitrary: c) simp_all

text \<open>
  The statements of the repository's documentation and tests, built by the model: a SELECT
  with two WHERE predicates and a LIMIT, a two-row INSERT, and a SELECT with WHERE, HAVING
  and LIMIT in the named variant.
\<close>

lemma build_examples:
  "SelectBuilder_Build
     (Limit 10 (OrderBy ''name'' Asc
        (Where [eqPred ''active'' (VBool True), gtPred ''age'' (VInt 18)]
           (From ''users'' (Select [''uuid'', ''name''])))))
     = (''SELECT uuid, name FROM users WHERE active = $1 AND age > $2 ORDER BY name ASC LIMIT $3'',
        [VBool True, VInt 18, VInt 10])"
  "InsertBuilder_Build
     (InsertBuilder_Returning [''uuid'', ''created'']
        (Values [VStr ''Bob'', VStr ''bob@example.com'']
           (Values [VStr ''Alice'', VStr ''alice@example.com'']
              (Columns [''name'', ''email''] (InsertInto ''users'')))))
     = (''INSERT INTO users (name, email) VALUES ($1, $2), ($3, $4) RETURNING uuid, created'',
        [VStr ''Alice'', VStr ''alice@example.com'', VStr ''Bob'', VStr ''bob@example.com''])"
  "SelectBuilder_Build_named
     (Limit 10 (Having [gtPredN ''COUNT(o.id)'' (VInt 2)]
        (GroupBy [''u.name'']
           (Where [eqPredN ''u.active'' (VBool True), gtePredN ''o.total'' (VInt 100)]
              (From ''users u'' (Select [''u.name'']))))))
     = (''SELECT u.name FROM users u WHERE u.active = @p1 AND o.total >= @p2 GROUP BY u.name HAVING COUNT(o.id) > @p3 LIMIT @p4'',
        [''p1'' \<mapsto> VBool True, ''p2'' \<mapsto> VInt 100, ''p3'' \<mapsto> VInt 2, ''p4'' \<mapsto> VInt 10])"
  by (simp_all add: SelectBuilder_Build_def InsertBuilder_Build_def SelectBuilder_Build_named_def
      Limit_def OrderBy_def Where_def From_def Select_def Having_def GroupBy_def
      InsertBuilder_Returning_def Values_def Columns_def InsertInto_def
      writePredicates_def writePredicates_named_def cmpN_def nextParam_def mergeArgs_def
      OrderDir_String_def fmt_d_def showInt_def showNat.simps)

lemma SelectBuilder_Build_named_closed:
  "SelectBuilder_Build_named b =
     (let W = renderChain_named (s_where b) 0; cW = chainEnd W 0;
          H = renderChain_named (s_having b) cW; cH = chainEnd H cW;
          cL = (case s_limit b of None \<Rightarrow> cH | Some n \<Rightarrow> cH + 1);
          aH = chainArgs_named (chainArgs_named Map.empty W) H;
          aL = (case s_limit b of None \<Rightarrow> aH
                | Some n \<Rightarrow> aH(''p'' @ fmt_d (cH + 1) \<mapsto> VInt (sint n)))
      in (selectHead b @ clauseText '' WHERE '' W @ listText '' GROUP BY '' (s_groupBy b)
            @ clauseText '' HAVING '' H @ orderByText b
            @ (case s_limit b of None \<Rightarrow> [] | Some n \<Rightarrow> '' LIMIT @p'' @ fmt_d (cH + 1))
            @ (case s_offset b of None \<Rightarrow> [] | Some n \<Rightarrow> '' OFFSET @p'' @ fmt_d (cL + 1)),
          case s_offset b of None \<Rightarrow> aL
          | Some n \<Rightarrow> aL(''p'' @ fmt_d (cL + 1) \<mapsto> VInt (sint n))))"
proof -
  have w: "(if length (s_where b) > 0
            then writePredicates_named (sb @ '' WHERE '') (s_where b) 0 Map.empty
            else (sb, 0, Map.empty))
           = (sb @ clauseText '' WHERE '' (renderChain_named (s_where b) 0),
              chainEnd (renderChain_named (s_where b) 0) 0,
              chainArgs_named Map.empty (renderChain_named (s_where b) 0))" for sb
    by (cases "s_where b = []")
       (simp_all add: writePredicates_named_chain clauseText_Nil chainEnd_def chainArgs_named_def)
  have h: "(if length (s_having b) > 0
            then writePredicates_named (sb @ '' HAVING '') (s_having b) off args
            else (sb, off, args))
           = (sb @ clauseText '' HAVING '' (renderChain_named (s_having b) off),
              chainEnd (renderChain_named (s_having b) off) off,
              chainArgs_named args (renderChain_named (s_having b) off))" for sb off args
    by (cases "s_having b = []")
       (simp_all add: writePredicates_named_chain clauseText_Nil chainEnd_def chainArgs_named_def)
  show ?thesis
    unfolding SelectBuilder_Build_named_def Let_def w h
    by (simp add: selectHead_def orderByText_def listText_def foldl_writeJoin nextParam_def
        split: option.splits)
qed

lemma UpdateBuilder_Build_named_closed:
  "UpdateBuilder_Build_named b =
     (let W = renderChain_named (u_where b) (of_nat (length (u_sets b)))
      in (''UPDATE '' @ u_table b @ '' SET '' @ Join (setTexts_named 0 (u_sets b)) '', ''
            @ clauseText '' WHERE '' W @ listText '' RETURNING '' (u_returning b),
          chainArgs_named (setArgs_named 0 (u_sets b) Map.empty) W))"
proof -
  have w: "(if length (u_where b) > 0
            then writePredicates_named (sb @ '' WHERE '') (u_where b) off args
            else (sb, off, args))
           = (sb @ clauseText '' WHERE '' (renderChain_named (u_where b) off),
              chainEnd (renderChain_named (u_where b) off) off,
              chainArgs_named args (renderChain_named (u_where b) off))" for sb off args
    by (cases "u_where b = []")
       (simp_all add: writePredicates_named_chain clauseText_Nil chainEnd_def chainArgs_named_def)
  show ?thesis
    unfolding UpdateBuilder_Build_named_def Let_def updateSets_named_closed w
    by (simp add: listText_def)
qed

lemma DeleteBuilder_Build_named_closed:
  "DeleteBuilder_Build_named b =
     (let W = renderChain_named (d_where b) 0
      in (''DELETE FROM '' @ d_table b @ clauseText '' WHERE '' W
            @ listText '' RETURNING '' (d_returning b),
          chainArgs_named Map.empty W))"
proof -
  have w: "(if length (d_where b) > 0
            then writePredicates_named (sb @ '' WHERE '') (d_where b) 0 Map.empty
            else (sb, 0, Map.empty))
           = (sb @ clauseText '' WHERE '' (renderChain_named (d_where b) 0),
              chainEnd (renderChain_named (d_where b) 0) 0,
              chainArgs_named Map.empty (renderChain_named (d_where b) 0))" for sb
    by (cases "d_where b = []")
       (simp_all add: writePredicates_named_chain clauseText_Nil chainEnd_def chainArgs_named_def)
  show ?thesis
    unfolding DeleteBuilder_Build_named_def Let_def w
    by (simp add: listText_def)
qed

lemma InsertBuilder_Build_args: "snd (InsertBuilder_Build b) = concat (i_values b)"
  by (simp add: InsertBuilder_Build_def Let_def case_prod_unfold insertRows_args)

text \<open>
  Claim C2, as amended. Every Build of the source files (the positional Select, Insert,
  Update and Delete builders and the named Select, Update and Delete builders; the named
  INSERT builder is not among the source files) initialises the cursor once (position 1 in
  positional mode, counter 0 in named mode) and threads it through the clauses in the
  order in which they appear in the statement text: for SELECT the WHERE predicates, then
  the HAVING predicates, then LIMIT, then OFFSET; for UPDATE the SET assignments and then
  the WHERE predicates; for DELETE the WHERE predicates; for INSERT the VALUES rows, row by
  row and left to right from position 1, before ON CONFLICT and RETURNING, which carry no
  parameters. The bound values are collected in that clause order. In particular, in an
  UPDATE with SET assignments and WHERE predicates the SET values are numbered first (from
  1, or from \<open>p1\<close>), and the WHERE predicates start at the cursor left by the last
  assignment. The statement gives the text and the arguments of each Build in full, and
  then those of one concrete statement of each kind.
\<close>

theorem C2_clause_order:
  "SelectBuilder_Build sb =
     (let W = renderChain (s_where sb) 1; cW = chainEnd W 1;
          H = renderChain (s_having sb) cW; cH = chainEnd H cW;
          cL = (case s_limit sb of None \<Rightarrow> cH | Some n \<Rightarrow> cH + 1)
      in (selectHead sb @ clauseText '' WHERE '' W @ listText '' GROUP BY '' (s_groupBy sb)
            @ clauseText '' HAVING '' H @ orderByText sb
            @ (case s_limit sb of None \<Rightarrow> [] | Some n \<Rightarrow> '' LIMIT $'' @ fmt_d cH)
            @ (case s_offset sb of None \<Rightarrow> [] | Some n \<Rightarrow> '' OFFSET $'' @ fmt_d cL),
          chainArgs W @ chainArgs H
            @ (case s_limit sb of None \<Rightarrow> [] | Some n \<Rightarrow> [VInt (sint n)])
            @ (case s_offset sb of None \<Rightarrow> [] | Some n \<Rightarrow> [VInt (sint n)])))
   \<and> UpdateBuilder_Build ub =
     (let W = renderChain (u_where ub) (1 + of_nat (length (u_sets ub)))
      in (''UPDATE '' @ u_table ub @ '' SET '' @ Join (setTexts 1 (u_sets ub)) '', ''
            @ clauseText '' WHERE '' W @ listText '' RETURNING '' (u_returning ub),
          map sc_val (u_sets ub) @ chainArgs W))
   \<and> DeleteBuilder_Build db =
     (let W = renderChain (d_where db) 1
      in (''DELETE FROM '' @ d_table db @ clauseText '' WHERE '' W
            @ listText '' RETURNING '' (d_returning db),
          chainArgs W))
   \<and> InsertBuilder_Build ib =
     (''INSERT INTO '' @ i_table ib
        @ (if i_columns ib = [] then [] else '' ('' @ Join (i_columns ib) '', '' @ '')'')
        @ '' VALUES '' @ Join (rowTexts 1 (i_values ib)) '', ''
        @ (if i_onConflict ib = [] then [] else '' ON CONFLICT '' @ i_onConflict ib)
        @ listText '' RETURNING '' (i_returning ib),
      concat (i_values ib))
   \<and> SelectBuilder_Build_named nsb =
     (let W = renderChain_named (s_where nsb) 0; cW = chainEnd W 0;
          H = renderChain_named (s_having nsb) cW; cH = chainEnd H cW;
          cL = (case s_limit nsb of None \<Rightarrow> cH | Some n \<Rightarrow> cH + 1);
          aH = chainArgs_named (chainArgs_named Map.empty W) H;
          aL = (case s_limit nsb of None \<Rightarrow> aH
                | Some n \<Rightarrow> aH(''p'' @ fmt_d (cH + 1) \<mapsto> VInt (sint n)))
      in (selectHead nsb @ clauseText '' WHERE '' W @ listText '' GROUP BY '' (s_groupBy nsb)
            @ clauseText '' HAVING '' H @ orderByText nsb
            @ (case s_limit nsb of None \<Rightarrow> [] | Some n \<Rightarrow> '' LIMIT @p'' @ fmt_d (cH + 1))
            @ (case s_offset nsb of None \<Rightarrow> [] | Some n \<Rightarrow> '' OFFSET @p'' @ fmt_d (cL + 1)),
          case s_offset nsb of None \<Rightarrow> aL
          | Some n \<Rightarrow> aL(''p'' @ fmt_d (cL + 1) \<mapsto> VInt (sint n))))
   \<and> UpdateBuilder_Build_named nub =
     (let W = renderChain_named (u_where nub) (of_nat (length (u_sets nub)))
      in (''UPDATE '' @ u_table nub @ '' SET '' @ Join (setTexts_named 0 (u_sets nub)) '', ''
            @ clauseText '' WHERE '' W @ listText '' RETURNING '' (u_returning nub),
          chainArgs_named (setArgs_named 0 (u_sets nub) Map.empty) W))
   \<and> DeleteBuilder_Build_named ndb =
     (let W = renderChain_named (d_where ndb) 0
      in (''DELETE FROM '' @ d_table ndb @ clauseText '' WHERE '' W
            @ listText '' RETURNING '' (d_returning ndb),
          chainArgs_named Map.empty W))
   \<and> SelectBuilder_Build
     (Offset 20 (Limit 10 (Having [gtPred ''COUNT(o.id)'' (VInt 2)] (GroupBy [''u.name'']
        (Where [eqPred ''u.active'' (VBool True), inPred ''o.kind'' [VInt 1, VInt 2]]
           (From ''users u'' (Select [''u.name''])))))))
     = (''SELECT u.name FROM users u WHERE u.active = $1 AND o.kind IN ($2, $3) GROUP BY u.name HAVING COUNT(o.id) > $4 LIMIT $5 OFFSET $6'',
        [VBool True, VInt 1, VInt 2, VInt 2, VInt 10, VInt 20])
   \<and> InsertBuilder_Build
     (InsertBuilder_Returning [''uuid'']
        (Values [VStr ''Bob'', VStr ''b@x.com'']
           (Values [VStr ''Alice'', VStr ''a@x.com'']
              (Columns [''name'', ''email''] (InsertInto ''users'')))))
     = (''INSERT INTO users (name, email) VALUES ($1, $2), ($3, $4) RETURNING uuid'',
        [VStr ''Alice'', VStr ''a@x.com'', VStr ''Bob'', VStr ''b@x.com''])
   \<and> DeleteBuilder_Build
     (DeleteBuilder_Where [eqPred ''id'' (VInt 7), isNullPred ''gone''] (DeleteFrom ''t''))
     = (''DELETE FROM t WHERE id = $1 AND gone IS NULL'', [VInt 7])
   \<and> SelectBuilder_Build_named
     (Offset 20 (Limit 10 (Having [gtPredN ''COUNT(o.id)'' (VInt 2)] (GroupBy [''u.name'']
        (Where [eqPredN ''u.active'' (VBool True)] (From ''users u'' (Select [''u.name''])))))))
     = (''SELECT u.name FROM users u WHERE u.active = @p1 GROUP BY u.name HAVING COUNT(o.id) > @p2 LIMIT @p3 OFFSET @p4'',
        [''p1'' \<mapsto> VBool True, ''p2'' \<mapsto> VInt 2, ''p3'' \<mapsto> VInt 10, ''p4'' \<mapsto> VInt 20])
   \<and> UpdateBuilder_Build_named
     (UpdateBuilder_Where [eqPredN ''uuid'' (VStr ''abc'')]
        (Set ''email'' (VStr ''b@x.com'') (Set ''name'' (VStr ''Bob'') (Update ''users''))))
     = (''UPDATE users SET name = @p1, email = @p2 WHERE uuid = @p3'',
        [''p1'' \<mapsto> VStr ''Bob'', ''p2'' \<mapsto> VStr ''b@x.com'', ''p3'' \<mapsto> VStr ''abc''])
   \<and> DeleteBuilder_Build_named
     (DeleteBuilder_Where [eqPredN ''id'' (VInt 7)] (DeleteFrom ''t''))
     = (''DELETE FROM t WHERE id = @p1'', [''p1'' \<mapsto> VInt 7])"
proof -
  have GS: "SelectBuilder_Build sb =
       (let W = renderChain (s_where sb) 1; cW = chainEnd W 1;
            H = renderChain (s_having sb) cW; cH = chainEnd H cW;
            cL = (case s_limit sb of None \<Rightarrow> cH | Some n \<Rightarrow> cH + 1)
        in (selectHead sb @ clauseText '' WHERE '' W @ listText '' GROUP BY '' (s_groupBy sb)
              @ clauseText '' HAVING '' H @ orderByText sb
              @ (case s_limit sb of None \<Rightarrow> [] | Some n \<Rightarrow> '' LIMIT $'' @ fmt_d cH)
              @ (case s_offset sb of None \<Rightarrow> [] | Some n \<Rightarrow> '' OFFSET $'' @ fmt_d cL),
            chainArgs W @ chainArgs H
              @ (case s_limit sb of None \<Rightarrow> [] | Some n \<Rightarrow> [VInt (sint n)])
              @ (case s_offset sb of None \<Rightarrow> [] | Some n \<Rightarrow> [VInt (sint n)])))"
    by (rule SelectBuilder_Build_closed)
  have GU: "UpdateBuilder_Build ub =
       (let W = renderChain (u_where ub) (1 + of_nat (length (u_sets ub)))
        in (''UPDATE '' @ u_table ub @ '' SET '' @ Join (setTexts 1 (u_sets ub)) '', ''
              @ clauseText '' WHERE '' W @ listText '' RETURNING '' (u_returning ub),
            map sc_val (u_sets ub) @ chainArgs W))"
    by (rule UpdateBuilder_Build_closed)
  have GD: "DeleteBuilder_Build db =
       (let W = renderChain (d_where db) 1
        in (''DELETE FROM '' @ d_table db @ clauseText '' WHERE '' W
              @ listText '' RETURNING '' (d_returning db),
            chainArgs W))"
    by (rule DeleteBuilder_Build_closed)
  have GI: "InsertBuilder_Build ib =
       (''INSERT INTO '' @ i_table ib
          @ (if i_columns ib = [] then [] else '' ('' @ Join (i_columns ib) '', '' @ '')'')
          @ '' VALUES '' @ Join (rowTexts 1 (i_values ib)) '', ''
          @ (if i_onConflict ib = [] then [] else '' ON CONFLICT '' @ i_onConflict ib)
          @ listText '' RETURNING '' (i_returning ib),
        concat (i_values ib))"
    unfolding InsertBuilder_Build_closed by (simp add: insertTail_def)
  have GSN: "SelectBuilder_Build_named nsb =
       (let W = renderChain_named (s_where nsb) 0; cW = chainEnd W 0;
            H = renderChain_named (s_having nsb) cW; cH = chainEnd H cW;
            cL = (case s_limit nsb of None \<Rightarrow> cH | Some n \<Rightarrow> cH + 1);
            aH = chainArgs_named (chainArgs_named Map.empty W) H;
            aL = (case s_limit nsb of None \<Rightarrow> aH
                  | Some n \<Rightarrow> aH(''p'' @ fmt_d (cH + 1) \<mapsto> VInt (sint n)))
        in (selectHead nsb @ clauseText '' WHERE '' W @ listText '' GROUP BY '' (s_groupBy nsb)
              @ clauseText '' HAVING '' H @ orderByText nsb
              @ (case s_limit nsb of None \<Rightarrow> [] | Some n \<Rightarrow> '' LIMIT @p'' @ fmt_d (cH + 1))
              @ (case s_offset nsb of None \<Rightarrow> [] | Some n \<Rightarrow> '' OFFSET @p'' @ fmt_d (cL + 1)),
            case s_offset nsb of None \<Rightarrow> aL
            | Some n \<Rightarrow> aL(''p'' @ fmt_d (cL + 1) \<mapsto> VInt (sint n))))"
    by (rule SelectBuilder_Build_named_closed)
  have GUN: "UpdateBuilder_Build_named nub =
       (let W = renderChain_named (u_where nub) (of_nat (length (u_sets nub)))
        in (''UPDATE '' @ u_table nub @ '' SET '' @ Join (setTexts_named 0 (u_sets nub)) '', ''
              @ clauseText '' WHERE '' W @ listText '' RETURNING '' (u_returning nub),
            chainArgs_named (setArgs_named 0 (u_sets nub) Map.empty) W))"
    by (rule UpdateBuilder_Build_named_closed)
  have GDN: "DeleteBuilder_Build_named ndb =
       (let W = renderChain_named (d_where ndb) 0
        in (''DELETE FROM '' @ d_table ndb @ clauseText '' WHERE '' W
              @ listText '' RETURNING '' (d_returning ndb),
            chainArgs_named Map.empty W))"
    by (rule DeleteBuilder_Build_named_closed)
  have E1: "SelectBuilder_Build
       (Offset 20 (Limit 10 (Having [gtPred ''COUNT(o.id)'' (VInt 2)] (GroupBy [''u.name'']
          (Where [eqPred ''u.active'' (VBool True), inPred ''o.kind'' [VInt 1, VInt 2]]
             (From ''users u'' (Select [''u.name''])))))))
       = (''SELECT u.name FROM users u WHERE u.active = $1 AND o.kind IN ($2, $3) GROUP BY u.name HAVING COUNT(o.id) > $4 LIMIT $5 OFFSET $6'',
          [VBool True, VInt 1, VInt 2, VInt 2, VInt 10, VInt 20])"
    by (simp add: SelectBuilder_Build_def InsertBuilder_Build_def DeleteBuilder_Build_def
        SelectBuilder_Build_named_def UpdateBuilder_Build_named_def DeleteBuilder_Build_named_def
        Offset_def Limit_def Having_def GroupBy_def Where_def From_def Select_def
        InsertBuilder_Returning_def Values_def Columns_def InsertInto_def
        DeleteBuilder_Where_def DeleteFrom_def UpdateBuilder_Where_def Set_def Update_def
        writePredicates_def writePredicates_named_def cmpN_def nextParam_def mergeArgs_def
        fmt_d_def showInt_def showNat.simps)
  have E2: "InsertBuilder_Build
       (InsertBuilder_Returning [''uuid'']
          (Values [VStr ''Bob'', VStr ''b@x.com'']
             (Values [VStr ''Alice'', VStr ''a@x.com'']
                (Columns [''name'', ''email''] (InsertInto ''users'')))))
       = (''INSERT INTO users (name, email) VALUES ($1, $2), ($3, $4) RETURNING uuid'',
          [VStr ''Alice'', VStr ''a@x.com'', VStr ''Bob'', VStr ''b@x.com''])"
    by (simp add: SelectBuilder_Build_def InsertBuilder_Build_def DeleteBuilder_Build_def
        SelectBuilder_Build_named_def UpdateBuilder_Build_named_def DeleteBuilder_Build_named_def
        Offset_def Limit_def Having_def GroupBy_def Where_def From_def Select_def
        InsertBuilder_Returning_def Values_def Columns_def InsertInto_def
        DeleteBuilder_Where_def DeleteFrom_def UpdateBuilder_Where_def Set_def Update_def
        writePredicates_def writePredicates_named_def cmpN_def nextParam_def mergeArgs_def
        fmt_d_def showInt_def showNat.simps)
  have E3: "DeleteBuilder_Build
       (DeleteBuilder_Where [eqPred ''id'' (VInt 7), isNullPred ''gone''] (DeleteFrom ''t''))
       = (''DELETE FROM t WHERE id = $1 AND gone IS NULL'', [VInt 7])"
    by (simp add: SelectBuilder_Build_def InsertBuilder_Build_def DeleteBuilder_Build_def
        SelectBuilder_Build_named_def UpdateBuilder_Build_named_def DeleteBuilder_Build_named_def
        Offset_def Limit_def Having_def GroupBy_def Where_def From_def Select_def
        InsertBuilder_Returning_def Values_def Columns_def InsertInto_def
        DeleteBuilder_Where_def DeleteFrom_def UpdateBuilder_Where_def Set_def Update_def
        writePredicates_def writePredicates_named_def cmpN_def nextParam_def mergeArgs_def
        fmt_d_def showInt_def showNat.simps)
  have E4: "SelectBuilder_Build_named
       (Offset 20 (Limit 10 (Having [gtPredN ''COUNT(o.id)'' (VInt 2)] (GroupBy [''u.name'']
          (Where [eqPredN ''u.active'' (VBool True)] (From ''users u'' (Select [''u.name''])))))))
       = (''SELECT u.name FROM users u WHERE u.active = @p1 GROUP BY u.name HAVING COUNT(o.id) > @p2 LIMIT @p3 OFFSET @p4'',
          [''p1'' \<mapsto> VBool True, ''p2'' \<mapsto> VInt 2, ''p3'' \<mapsto> VInt 10, ''p4'' \<mapsto> VInt 20])"
    by (simp add: SelectBuilder_Build_def InsertBuilder_Build_def DeleteBuilder_Build_def
        SelectBuilder_Build_named_def UpdateBuilder_Build_named_def DeleteBuilder_Build_named_def
        Offset_def Limit_def Having_def GroupBy_def Where_def From_def Select_def
        InsertBuilder_Returning_def Values_def Columns_def InsertInto_def
        DeleteBuilder_Where_def DeleteFrom_def UpdateBuilder_Where_def Set_def Update_def
        writePredicates_def writePredicates_named_def cmpN_def nextParam_def mergeArgs_def
        fmt_d_def showInt_def showNat.simps)
  have E5: "UpdateBuilder_Build_named
       (UpdateBuilder_Where [eqPredN ''uuid'' (VStr ''abc'')]
          (Set ''email'' (VStr ''b@x.com'') (Set ''name'' (VStr ''Bob'') (Update ''users''))))
       = (''UPDATE users SET name = @p1, email = @p2 WHERE uuid = @p3'',
          [''p1'' \<mapsto> VStr ''Bob'', ''p2'' \<mapsto> VStr ''b@x.com'', ''p3'' \<mapsto> VStr ''abc''])"
    by (simp add: SelectBuilder_Build_def InsertBuilder_Build_def DeleteBuilder_Build_def
        SelectBuilder_Build_named_def UpdateBuilder_Build_named_def DeleteBuilder_Build_named_def
        Offset_def Limit_def Having_def GroupBy_def Where_def From_def Select_def
        InsertBuilder_Returning_def Values_def Columns_def InsertInto_def
        DeleteBuilder_Where_def DeleteFrom_def UpdateBuilder_Where_def Set_def Update_def
        writePredicates_def writePredicates_named_def cmpN_def nextParam_def mergeArgs_def
        fmt_d_def showInt_def showNat.simps)
  have E6: "DeleteBuilder_Build_named
       (DeleteBuilder_Where [eqPredN ''id'' (VInt 7)] (DeleteFrom ''t''))
       = (''DELETE FROM t WHERE id = @p1'', [''p1'' \<mapsto> VInt 7])"
    by (simp add: SelectBuilder_Build_def InsertBuilder_Build_def DeleteBuilder_Build_def
        SelectBuilder_Build_named_def UpdateBuilder_Build_named_def DeleteBuilder_Build_named_def
        Offset_def Limit_def Having_def GroupBy_def Where_def From_def Select_def
        InsertBuilder_Returning_def Values_def Columns_def InsertInto_def
        DeleteBuilder_Where_def DeleteFrom_def UpdateBuilder_Where_def Set_def Update_def
        writePredicates_def writePredicates_named_def cmpN_def nextParam_def mergeArgs_def
        fmt_d_def showInt_def showNat.simps)
  note B = GS GU GD GI GSN GUN GDN E1 E2 E3 E4 E5 E6
  show ?thesis
    using B by (simp only: simp_thms)
qed

text \<open>
  Claim C2 as stated fails in its last sentence: in the UPDATE of the repository's own test
  (two assignments and one WHERE predicate) the SET values take positions 1 and 2 and the
  WHERE value position 3, in the text and in the argument list.
\<close>

theorem C2_counterexample:
  "UpdateBuilder_Build
     (UpdateBuilder_Where [eqPred ''uuid'' (VStr ''abc-123'')]
       (Set ''email'' (VStr ''bob@new.com'') (Set ''name'' (VStr ''Bob'') (Update ''users''))))
   = (''UPDATE users SET name = $1, email = $2 WHERE uuid = $3'',
      [VStr ''Bob'', VStr ''bob@new.com'', VStr ''abc-123''])"
  by (simp add: UpdateBuilder_Build_def UpdateBuilder_Where_def Set_def Update_def
      writePredicates_def fmt_d_def showInt_def showNat.simps)

section \<open>Build over the store\<close>

text \<open>
  The positional \<open>Build\<close> over the store writes only arrays that it has allocated itself,
  and its text and the elements of its argument slice are those of \<open>Build\<close> on the
  builder read as a value. First the facts about stores, slices and \<open>append\<close>.
\<close>

lemma extends_refl: "extends h h"
  by (simp add: extends_def)

lemma extends_nth: "extends h h' \<Longrightarrow> a < length h \<Longrightarrow> h' ! a = h ! a"
  by (metis extends_def nth_take)

lemma take_nth_eq: "take k h' = take k h \<Longrightarrow> a < k \<Longrightarrow> h' ! a = h ! a"
  by (metis nth_take)

lemma extends_take:
  assumes "extends h h'" "k \<le> length h"
  shows "take k h' = take k h"
proof -
  have "take k (take (length h) h') = take k h'" using assms(2) by (simp add: min_def)
  moreover have "take (length h) h' = h" using assms(1) by (simp add: extends_def)
  ultimately show ?thesis by simp
qed

lemma extends_length: "extends h h' \<Longrightarrow> length h \<le> length h'"
  by (simp add: extends_def)

lemma extends_trans:
  assumes "extends h h1" "extends h1 h2"
  shows "extends h h2"
proof -
  have l: "length h \<le> length h1" "length h1 \<le> length h2"
    using assms by (simp_all add: extends_def)
  have "take (length h) h2 = take (length h) (take (length h1) h2)"
    using l by (simp add: min_def)
  also have "\<dots> = take (length h) h1" using assms(2) by (simp add: extends_def)
  also have "\<dots> = h" using assms(1) by (simp add: extends_def)
  finally show ?thesis using l by (simp add: extends_def)
qed

lemma elems_cong: "wfSlice h s \<Longrightarrow> below k s \<Longrightarrow> take k h' = take k h \<Longrightarrow> elems h' s = elems h s"
  by (cases s) (auto simp: elems_def below_def dest: take_nth_eq)

lemma wfSlice_cong:
  "wfSlice h s \<Longrightarrow> below k s \<Longrightarrow> k \<le> length h' \<Longrightarrow> take k h' = take k h \<Longrightarrow> wfSlice h' s"
  by (cases s) (auto simp: wfSlice_def below_def dest: take_nth_eq)

lemma wfSlice_below: "wfSlice h s \<Longrightarrow> below (length h) s"
  by (cases s) (auto simp: wfSlice_def below_def)

lemma wfSlice_extends: "wfSlice h s \<Longrightarrow> extends h h' \<Longrightarrow> wfSlice h' s"
  using extends_length[of h h'] by (cases s) (auto simp: wfSlice_def extends_nth)

lemma elems_extends: "wfSlice h s \<Longrightarrow> extends h h' \<Longrightarrow> elems h' s = elems h s"
  by (cases s) (auto simp: wfSlice_def elems_def extends_nth)

lemma sliceLen_elems: "wfSlice h s \<Longrightarrow> length (elems h s) = sliceLen s"
  by (cases s) (auto simp: wfSlice_def elems_def sliceLen_def)

lemma literal_props:
  assumes "literal h xs = (h', s)"
  shows "extends h h'" "wfSlice h' s" "elems h' s = xs" "atOrAfter (length h) s"
  using assms by (auto simp: literal_def extends_def wfSlice_def elems_def atOrAfter_def)

lemma append_s_props:
  assumes "wfSlice h s" "atOrAfter k s" "k \<le> length h" "append_s g h s xs = (h', s')"
  shows "length h \<le> length h'" "take k h' = take k h" "wfSlice h' s'" "atOrAfter k s'"
    "elems h' s' = elems h s @ xs"
proof -
  show "length h \<le> length h'"
    using assms(4) by (cases s) (auto simp: append_s_def split: if_splits)
  show "take k h' = take k h"
    using assms by (cases s) (auto simp: append_s_def atOrAfter_def split: if_splits)
  show "wfSlice h' s'"
    using assms by (cases s) (auto simp: append_s_def wfSlice_def nth_append split: if_splits)
  show "atOrAfter k s'"
    using assms by (cases s) (auto simp: append_s_def atOrAfter_def split: if_splits)
  show "elems h' s' = elems h s @ xs"
    using assms by (cases s) (auto simp: append_s_def elems_def wfSlice_def split: if_splits)
qed

text \<open>
  \<open>ToSQL\<close> over the store only adds arrays, returns a well-formed slice, and agrees with
  \<open>ToSQL\<close> on the predicate read as a value; the loop of \<open>combinePredicates\<close> in addition
  keeps the arrays below the one of its accumulator.
\<close>

lemma cmp_s_sound:
  assumes "cmp_s h col opr v off = (h', sql, s', off')"
  shows "extends h h' \<and> wfSlice h' s'
         \<and> (col @ '' '' @ opr @ '' $'' @ fmt_d off, [v], off + 1) = (sql, elems h' s', off')"
proof -
  obtain h1 s1 where l: "literal h [v] = (h1, s1)" by (cases "literal h [v]") auto
  from assms l have e: "h' = h1" "s' = s1" "sql = col @ '' '' @ opr @ '' $'' @ fmt_d off"
      "off' = off + 1"
    by (simp_all add: cmp_s_def)
  show ?thesis using literal_props[OF l] e by simp
qed

lemma store_sound:
  "(\<forall>s\<in>set_PredicateOf p. wfSlice h s)
   \<Longrightarrow> ToSQL_s g h p off = (h', sql, s', off')
   \<Longrightarrow> extends h h' \<and> wfSlice h' s'
       \<and> ToSQL (map_PredicateOf (elems h) p) off = (sql, elems h' s', off')"
  "(\<forall>p\<in>set ps. \<forall>s\<in>set_PredicateOf p. wfSlice h s)
   \<Longrightarrow> combinePredicates_s g h ps op off = (h', sql, s', off')
   \<Longrightarrow> extends h h' \<and> wfSlice h' s'
       \<and> combinePredicates (map (map_PredicateOf (elems h)) ps) op off = (sql, elems h' s', off')"
  "k \<le> length h
   \<Longrightarrow> (\<forall>p\<in>set ps. \<forall>s\<in>set_PredicateOf p. wfSlice h s \<and> below k s)
   \<Longrightarrow> wfSlice h allArgs \<Longrightarrow> atOrAfter k allArgs
   \<Longrightarrow> combineLoop_s g h ps parts allArgs cur = (h', parts', s', cur')
   \<Longrightarrow> length h \<le> length h' \<and> take k h' = take k h \<and> wfSlice h' s' \<and> atOrAfter k s'
       \<and> combineLoop (map (map_PredicateOf (elems h)) ps) parts (elems h allArgs) cur
           = (parts', elems h' s', cur')"
proof (induction g h p off and g h ps op off and g h ps parts allArgs cur
       arbitrary: h' sql s' off' and h' sql s' off' and k h' parts' s' cur'
       rule: ToSQL_s_combinePredicates_s_combineLoop_s.induct)
  case (1 g h sql args offset)
  then show ?case
    by (auto simp: extends_refl sliceLen_elems)
next
  case (2 g h col v offset)
  then show ?case using cmp_s_sound[of h col "''=''" v offset h' sql s' off'] by simp
next
  case (3 g h col v offset)
  then show ?case using cmp_s_sound[of h col "''!=''" v offset h' sql s' off'] by simp
next
  case (4 g h col v offset)
  then show ?case using cmp_s_sound[of h col "''>''" v offset h' sql s' off'] by simp
next
  case (5 g h col v offset)
  then show ?case using cmp_s_sound[of h col "''>=''" v offset h' sql s' off'] by simp
next
  case (6 g h col v offset)
  then show ?case using cmp_s_sound[of h col "''<''" v offset h' sql s' off'] by simp
next
  case (7 g h col v offset)
  then show ?case using cmp_s_sound[of h col "''<=''" v offset h' sql s' off'] by simp
next
  case (8 g h col pattern offset)
  then show ?case using cmp_s_sound[of h col "''LIKE''" "VStr pattern" offset h' sql s' off'] by simp
next
  case (9 g h col pattern offset)
  then show ?case using cmp_s_sound[of h col "''ILIKE''" "VStr pattern" offset h' sql s' off'] by simp
next
  case (10 g h col vals offset)
  then show ?case
    by (auto simp: extends_refl sliceLen_elems Let_def)
next
  case (11 g h col low high offset)
  obtain h1 s1 where l: "literal h [low, high] = (h1, s1)" by (cases "literal h [low, high]") auto
  from "11.prems"(2) l have e: "h' = h1" "s' = s1"
      "sql = col @ '' BETWEEN $'' @ fmt_d offset @ '' AND $'' @ fmt_d (offset + 1)"
      "off' = offset + 2"
    by simp_all
  show ?case using literal_props[OF l] e by simp
next
  case (12 g h col offset)
  then show ?case by (auto simp: extends_refl wfSlice_def elems_def)
next
  case (13 g h col offset)
  then show ?case by (auto simp: extends_refl wfSlice_def elems_def)
next
  case (14 g h preds offset)
  from "14.IH"[of h' sql s' off'] "14.prems" show ?case by simp
next
  case (15 g h preds offset)
  from "15.IH"[of h' sql s' off'] "15.prems" show ?case by simp
next
  case (16 g h pred offset)
  obtain h1 sql1 s1 o1 where r: "ToSQL_s g h pred offset = (h1, sql1, s1, o1)"
    by (cases "ToSQL_s g h pred offset") auto
  from "16.prems"(2) r have e: "h' = h1" "s' = s1" "sql = ''NOT ('' @ sql1 @ '')''" "off' = o1"
    by simp_all
  from "16.IH"[OF _ r] "16.prems"(1) show ?case using e by simp
next
  case (17 g h op offset)
  then show ?case by (auto simp: extends_refl wfSlice_def elems_def)
next
  case (18 g h p op offset)
  from "18.IH"[of h' sql s' off'] "18.prems" show ?case by simp
next
  case (19 g h p q ps op offset)
  obtain h1 parts1 s1 c1 where r: "combineLoop_s g h (p # q # ps) [] NilSlice offset = (h1, parts1, s1, c1)"
    by (cases "combineLoop_s g h (p # q # ps) [] NilSlice offset") auto
  from "19.prems"(2) r have e: "h' = h1" "s' = s1" "off' = c1"
      "sql = ''('' @ Join parts1 ('' '' @ op @ '' '') @ '')''"
    by simp_all
  have pre: "\<forall>p'\<in>set (p # q # ps). \<forall>s\<in>set_PredicateOf p'. wfSlice h s \<and> below (length h) s"
    using "19.prems"(1) by (auto simp: wfSlice_below)
  have n: "wfSlice h NilSlice" "atOrAfter (length h) NilSlice" "elems h NilSlice = []"
    by (simp_all add: wfSlice_def atOrAfter_def elems_def)
  from "19.IH"[OF le_refl pre n(1) n(2) r]
  have c: "length h \<le> length h1" "take (length h) h1 = take (length h) h" "wfSlice h1 s1"
    "combineLoop (map (map_PredicateOf (elems h)) (p # q # ps)) [] [] offset = (parts1, elems h1 s1, c1)"
    by (simp_all add: n(3))
  have x: "extends h h1" using c(1,2) by (simp add: extends_def)
  show ?case using x c(3,4) e by simp
next
  case (20 g h parts allArgs cur)
  then show ?case by simp
next
  case (21 g h p ps parts allArgs cur)
  obtain h1 sql1 a1 n1 where r: "ToSQL_s g h p cur = (h1, sql1, a1, n1)"
    by (cases "ToSQL_s g h p cur") auto
  obtain h2 all2 where ap: "append_s g h1 allArgs (elems h1 a1) = (h2, all2)"
    by (cases "append_s g h1 allArgs (elems h1 a1)") auto
  from "21.prems"(5) r ap
  have rest: "combineLoop_s g h2 ps (parts @ [sql1]) all2 n1 = (h', parts', s', cur')"
    by simp
  have wfp: "\<forall>s\<in>set_PredicateOf p. wfSlice h s" using "21.prems"(2) by simp
  from "21.IH"(1)[OF wfp r]
  have p1: "extends h h1" "wfSlice h1 a1"
    "ToSQL (map_PredicateOf (elems h) p) cur = (sql1, elems h1 a1, n1)"
    by simp_all
  have k1: "k \<le> length h1" using "21.prems"(1) extends_length[OF p1(1)] by simp
  have wfa1: "wfSlice h1 allArgs" using "21.prems"(3) p1(1) by (rule wfSlice_extends)
  have ea1: "elems h1 allArgs = elems h allArgs" using "21.prems"(3) p1(1) by (rule elems_extends)
  note a = append_s_props[OF wfa1 "21.prems"(4) k1 ap]
  have t1: "take k h1 = take k h" using p1(1) "21.prems"(1) by (rule extends_take)
  have t2: "take k h2 = take k h" using a(2) t1 by simp
  have k2: "k \<le> length h2" using k1 a(1) by simp
  have pre2: "\<forall>p'\<in>set ps. \<forall>s\<in>set_PredicateOf p'. wfSlice h2 s \<and> below k s"
    using "21.prems"(2) k2 t2 by (auto intro: wfSlice_cong)
  have same: "map (map_PredicateOf (elems h2)) ps = map (map_PredicateOf (elems h)) ps"
    using "21.prems"(2) t2
    by (auto intro!: PredicateOf.map_cong elems_cong)
  from "21.IH"(2)[OF refl r[symmetric] refl refl refl ap[symmetric] k2 pre2 a(3) a(4) rest]
  have c: "length h2 \<le> length h'" "take k h' = take k h2" "wfSlice h' s'" "atOrAfter k s'"
    "combineLoop (map (map_PredicateOf (elems h2)) ps) (parts @ [sql1]) (elems h2 all2) n1
       = (parts', elems h' s', cur')"
    by simp_all
  have len: "length h \<le> length h'"
    using extends_length[OF p1(1)] a(1) c(1) by simp
  show ?case
    using len c(2) t2 c(3,4) c(5) p1(3) a(5) ea1 same by simp
qed

text \<open>
  The stages of \<open>Build\<close>: the predicate loop, the LIMIT and OFFSET stage, the SET loop and
  the loops over the rows of an INSERT.
\<close>

lemma kept_NilSlice: "kept k h h NilSlice"
  by (simp add: kept_def wfSlice_def atOrAfter_def)

lemma elems_NilSlice: "elems h NilSlice = []"
  by (simp add: elems_def)

lemma kept_trans:
  "k \<le> length h \<Longrightarrow> kept k h h1 s1 \<Longrightarrow> kept k h1 h2 s2 \<Longrightarrow> kept k h h2 s2"
  by (simp add: kept_def)

lemma kept_extends: "kept (length h) h h' s \<Longrightarrow> extends h h'"
  by (simp add: kept_def extends_def)

lemma append_s_kept:
  assumes "k \<le> length h" "wfSlice h s" "atOrAfter k s" "append_s g h s xs = (h', s')"
  shows "kept k h h' s' \<and> elems h' s' = elems h s @ xs"
  using append_s_props[OF assms(2,3,1,4)] by (simp add: kept_def)

lemma preds_cong:
  assumes "\<forall>p\<in>set ps. \<forall>s\<in>set_PredicateOf p. wfSlice h s \<and> below k s"
    and "k \<le> length h'" "take k h' = take k h"
  shows "\<forall>p\<in>set ps. \<forall>s\<in>set_PredicateOf p. wfSlice h' s \<and> below k s"
    and "map (map_PredicateOf (elems h')) ps = map (map_PredicateOf (elems h)) ps"
  using assms by (auto intro: wfSlice_cong intro!: PredicateOf.map_cong elems_cong)

lemma writePredicatesFrom_s_sound:
  "k \<le> length h
   \<Longrightarrow> (\<forall>p\<in>set ps. \<forall>s\<in>set_PredicateOf p. wfSlice h s \<and> below k s)
   \<Longrightarrow> wfSlice h args \<Longrightarrow> atOrAfter k args
   \<Longrightarrow> writePredicatesFrom_s g h i sb ps off args = (h', sb', off', s')
   \<Longrightarrow> kept k h h' s'
       \<and> writePredicatesFrom i sb (map (map_PredicateOf (elems h)) ps) off (elems h args)
           = (sb', off', elems h' s')"
proof (induction ps arbitrary: h i sb off args)
  case Nil
  then show ?case by (simp add: kept_def)
next
  case (Cons p ps)
  obtain h1 sql1 a1 n1 where r: "ToSQL_s g h p off = (h1, sql1, a1, n1)"
    by (cases "ToSQL_s g h p off") auto
  obtain h2 args2 where ap: "append_s g h1 args (elems h1 a1) = (h2, args2)"
    by (cases "append_s g h1 args (elems h1 a1)") auto
  let ?sb1 = "(if i > 0 then sb @ '' AND '' else sb) @ sql1"
  from Cons.prems(5) r ap
  have rest: "writePredicatesFrom_s g h2 (Suc i) ?sb1 ps n1 args2 = (h', sb', off', s')"
    by (simp add: Let_def)
  have wfp: "\<forall>s\<in>set_PredicateOf p. wfSlice h s" using Cons.prems(2) by simp
  from store_sound(1)[OF wfp r]
  have p1: "extends h h1" "wfSlice h1 a1"
    "ToSQL (map_PredicateOf (elems h) p) off = (sql1, elems h1 a1, n1)"
    by simp_all
  have k1: "k \<le> length h1" using Cons.prems(1) extends_length[OF p1(1)] by simp
  have wfa1: "wfSlice h1 args" using Cons.prems(3) p1(1) by (rule wfSlice_extends)
  have ea1: "elems h1 args = elems h args" using Cons.prems(3) p1(1) by (rule elems_extends)
  note a = append_s_props[OF wfa1 Cons.prems(4) k1 ap]
  have t1: "take k h1 = take k h" using p1(1) Cons.prems(1) by (rule extends_take)
  have t2: "take k h2 = take k h" using a(2) t1 by simp
  have k2: "k \<le> length h2" using k1 a(1) by simp
  have ps: "\<forall>p\<in>set ps. \<forall>s\<in>set_PredicateOf p. wfSlice h s \<and> below k s"
    using Cons.prems(2) by simp
  note c2 = preds_cong[OF ps k2 t2]
  from Cons.IH[OF k2 c2(1) a(3) a(4) rest]
  have c: "kept k h2 h' s'"
    "writePredicatesFrom (Suc i) ?sb1 (map (map_PredicateOf (elems h2)) ps) n1 (elems h2 args2)
       = (sb', off', elems h' s')"
    by simp_all
  have kp: "kept k h h' s'"
    using c(1) t2 extends_length[OF p1(1)] a(1) by (simp add: kept_def)
  show ?case
    using kp c(2) p1(3) a(5) ea1 c2(2) by (simp add: Let_def)
qed

lemma writeStage_sound:
  assumes "k \<le> length h"
    and "\<forall>p\<in>set ps. \<forall>s\<in>set_PredicateOf p. wfSlice h s \<and> below k s"
    and "wfSlice h args" "atOrAfter k args"
    and "(if length ps > 0 then writePredicates_s g h (sb @ kw) ps off args else (h, sb, off, args))
           = (h', sb', off', s')"
  shows "kept k h h' s'
       \<and> (if length (map (map_PredicateOf (elems h)) ps) > 0
           then writePredicates (sb @ kw) (map (map_PredicateOf (elems h)) ps) off (elems h args)
           else (sb, off, elems h args))
           = (sb', off', elems h' s')"
proof (cases "ps = []")
  case True
  with assms show ?thesis by (simp add: kept_def)
next
  case False
  with assms(5) have w: "writePredicatesFrom_s g h 0 (sb @ kw) ps off args = (h', sb', off', s')"
    by (simp add: writePredicates_s_def)
  from writePredicatesFrom_s_sound[OF assms(1-4) w] False
  show ?thesis by (simp add: writePredicates_def)
qed

lemma appendStage_sound:
  assumes "k \<le> length h" "wfSlice h args" "atOrAfter k args"
    and "(case lim of
            Some n \<Rightarrow> (case append_s g h args [VInt (sint n)] of
                        (h, args) \<Rightarrow> (h, sb @ kw @ fmt_d off, off + 1, args))
          | None \<Rightarrow> (h, sb, off, args)) = (h', sb', off', s')"
  shows "kept k h h' s'
       \<and> (case lim of
            Some n \<Rightarrow> (sb @ kw @ fmt_d off, off + 1, elems h args @ [VInt (sint n)])
          | None \<Rightarrow> (sb, off, elems h args)) = (sb', off', elems h' s')"
proof (cases lim)
  case None
  with assms show ?thesis by (simp add: kept_def)
next
  case (Some n)
  obtain h1 a1 where ap: "append_s g h args [VInt (sint n)] = (h1, a1)"
    by (cases "append_s g h args [VInt (sint n)]") auto
  from assms(4) Some ap have e: "h' = h1" "s' = a1" "sb' = sb @ kw @ fmt_d off" "off' = off + 1"
    by simp_all
  from append_s_kept[OF assms(1-3) ap] show ?thesis using e Some by simp
qed

lemma updateSets_s_sound:
  "k \<le> length h \<Longrightarrow> wfSlice h args \<Longrightarrow> atOrAfter k args
   \<Longrightarrow> updateSets_s g h ss setParts args off = (h', sp', s', off')
   \<Longrightarrow> kept k h h' s' \<and> updateSets ss setParts (elems h args) off = (sp', elems h' s', off')"
proof (induction ss arbitrary: h setParts args off)
  case Nil
  then show ?case by (simp add: kept_def)
next
  case (Cons x ss)
  obtain h1 a1 where ap: "append_s g h args [sc_val x] = (h1, a1)"
    by (cases "append_s g h args [sc_val x]") auto
  from Cons.prems(4) ap
  have rest: "updateSets_s g h1 ss (setParts @ [sc_col x @ '' = $'' @ fmt_d off]) a1 (off + 1)
                = (h', sp', s', off')"
    by simp
  note a = append_s_props[OF Cons.prems(2,3,1) ap]
  have k1: "k \<le> length h1" using Cons.prems(1) a(1) by simp
  from Cons.IH[OF k1 a(3) a(4) rest]
  have c: "kept k h1 h' s'"
    "updateSets ss (setParts @ [sc_col x @ '' = $'' @ fmt_d off]) (elems h1 a1) (off + 1)
       = (sp', elems h' s', off')"
    by simp_all
  have kp: "kept k h h' s'" using c(1) a(1,2) by (simp add: kept_def)
  show ?case using kp c(2) a(5) by simp
qed

lemma insertRow_s_sound:
  "k \<le> length h \<Longrightarrow> wfSlice h row \<Longrightarrow> below k row \<Longrightarrow> wfSlice h args \<Longrightarrow> atOrAfter k args
   \<Longrightarrow> insertRow_s g h row js ph args off = (h', ph', s', off')
   \<Longrightarrow> kept k h h' s'
       \<and> insertRow (map (\<lambda>j. elems h row ! j) js) ph (elems h args) off = (ph', elems h' s', off')"
proof (induction js arbitrary: h ph args off)
  case Nil
  then show ?case by (simp add: kept_def)
next
  case (Cons j js)
  obtain h1 a1 where ap: "append_s g h args [elems h row ! j] = (h1, a1)"
    by (cases "append_s g h args [elems h row ! j]") auto
  from Cons.prems(6) ap
  have rest: "insertRow_s g h1 row js (ph @ [''$'' @ fmt_d off]) a1 (off + 1) = (h', ph', s', off')"
    by (simp add: Let_def)
  note a = append_s_props[OF Cons.prems(4,5,1) ap]
  have k1: "k \<le> length h1" using Cons.prems(1) a(1) by simp
  have wr: "wfSlice h1 row" using Cons.prems(2,3) k1 a(2) by (rule wfSlice_cong)
  have er: "elems h1 row = elems h row" using Cons.prems(2,3) a(2) by (rule elems_cong)
  from Cons.IH[OF k1 wr Cons.prems(3) a(3) a(4) rest]
  have c: "kept k h1 h' s'"
    "insertRow (map (\<lambda>j. elems h1 row ! j) js) (ph @ [''$'' @ fmt_d off]) (elems h1 a1) (off + 1)
       = (ph', elems h' s', off')"
    by simp_all
  have kp: "kept k h h' s'" using c(1) a(1,2) by (simp add: kept_def)
  show ?case using kp c(2) a(5) er by simp
qed

lemma insertRows_s_sound:
  "k \<le> length h \<Longrightarrow> (\<forall>row\<in>set rows. wfSlice h row \<and> below k row)
   \<Longrightarrow> wfSlice h args \<Longrightarrow> atOrAfter k args
   \<Longrightarrow> insertRows_s g h i rows sb args off = (h', sb', s', off')
   \<Longrightarrow> kept k h h' s'
       \<and> insertRows i (map (elems h) rows) sb (elems h args) off = (sb', elems h' s', off')"
proof (induction rows arbitrary: h i sb args off)
  case Nil
  then show ?case by (simp add: kept_def)
next
  case (Cons row rows)
  let ?sb0 = "if i > 0 then sb @ '', '' else sb"
  obtain h1 ph1 a1 o1 where r: "insertRow_s g h row [0..<sliceLen row] [] args off = (h1, ph1, a1, o1)"
    by (cases "insertRow_s g h row [0..<sliceLen row] [] args off") auto
  from Cons.prems(5) r
  have rest: "insertRows_s g h1 (Suc i) rows (?sb0 @ ''('' @ Join ph1 '', '' @ '')'') a1 o1
                = (h', sb', s', off')"
    by (simp add: Let_def)
  have wr: "wfSlice h row" "below k row" using Cons.prems(2) by simp_all
  have all: "map (\<lambda>j. elems h row ! j) [0..<sliceLen row] = elems h row"
    using sliceLen_elems[OF wr(1)] by (metis map_nth)
  from insertRow_s_sound[OF Cons.prems(1) wr Cons.prems(3,4) r]
  have p1: "kept k h h1 a1" "insertRow (elems h row) [] (elems h args) off = (ph1, elems h1 a1, o1)"
    by (simp_all add: all)
  have k1: "k \<le> length h1" using Cons.prems(1) p1(1) by (simp add: kept_def)
  have t1: "take k h1 = take k h" using p1(1) by (simp add: kept_def)
  have rows1: "\<forall>row\<in>set rows. wfSlice h1 row \<and> below k row"
    using Cons.prems(2) k1 t1 by (auto intro: wfSlice_cong)
  have same: "map (elems h1) rows = map (elems h) rows"
    using Cons.prems(2) t1 by (auto intro: elems_cong)
  have wa: "wfSlice h1 a1" "atOrAfter k a1" using p1(1) by (simp_all add: kept_def)
  from Cons.IH[OF k1 rows1 wa rest]
  have c: "kept k h1 h' s'"
    "insertRows (Suc i) (map (elems h1) rows) (?sb0 @ ''('' @ Join ph1 '', '' @ '')'') (elems h1 a1) o1
       = (sb', elems h' s', off')"
    by simp_all
  have kp: "kept k h h' s'" using c(1) p1(1) by (simp add: kept_def)
  show ?case using kp c(2) p1(2) same by (simp add: Let_def)
qed

text \<open>
  The four \<open>Build\<close> methods, and two calls in sequence.
\<close>

lemma kept_facts:
  assumes "kept k h h' s"
  shows "length h \<le> length h'" "take k h' = take k h" "wfSlice h' s" "atOrAfter k s"
  using assms by (simp_all add: kept_def)

lemma kept_NilSlice_start: "wfSlice h NilSlice" "atOrAfter k NilSlice"
  by (simp_all add: wfSlice_def atOrAfter_def)

lemma SelectBuilder_Build_s_sound:
  assumes wf: "wfBuilder h (SelectS b)"
    and run: "SelectBuilder_Build_s g h b = (h', sql, s')"
  shows "kept (length h) h h' s' \<and> Build (readBuilder h (SelectS b)) = (sql, elems h' s')"
proof -
  let ?k = "length h"
  let ?f = "map_PredicateOf (elems h)"
  define sb0 where "sb0 = foldl writeJoin ((((if s_distinct b then ''SELECT DISTINCT '' else ''SELECT '')
                @ Join (s_fields b) '', '') @ '' FROM '') @ s_from b) (s_joins b)"
  have pw: "\<forall>p\<in>set (s_where b). \<forall>s\<in>set_PredicateOf p. wfSlice h s \<and> below ?k s"
    and ph: "\<forall>p\<in>set (s_having b). \<forall>s\<in>set_PredicateOf p. wfSlice h s \<and> below ?k s"
    using wf by (auto simp: wfBuilder_def intro!: wfSlice_below)
  obtain h1 sb1 o1 a1 where r1:
    "(if length (s_where b) > 0
      then writePredicates_s g h (sb0 @ '' WHERE '') (s_where b) 1 NilSlice
      else (h, sb0, 1, NilSlice)) = (h1, sb1, o1, a1)"
    by (rule prod_cases4)
  let ?sbg = "if length (s_groupBy b) > 0
              then sb1 @ '' GROUP BY '' @ Join (s_groupBy b) '', '' else sb1"
  obtain h2 sb2 o2 a2 where r2:
    "(if length (s_having b) > 0
      then writePredicates_s g h1 (?sbg @ '' HAVING '') (s_having b) o1 a1
      else (h1, ?sbg, o1, a1)) = (h2, sb2, o2, a2)"
    by (rule prod_cases4)
  let ?sbo = "if length (s_orderBy b) > 0
              then sb2 @ '' ORDER BY '' @
                   Join (map (\<lambda>ob. o_col ob @ '' '' @ OrderDir_String (o_dir ob)) (s_orderBy b)) '', ''
              else sb2"
  obtain h3 sb3 o3 a3 where r3:
    "(case s_limit b of
        Some n \<Rightarrow> (case append_s g h2 a2 [VInt (sint n)] of
                    (h, args) \<Rightarrow> (h, ?sbo @ '' LIMIT $'' @ fmt_d o2, o2 + 1, args))
      | None \<Rightarrow> (h2, ?sbo, o2, a2)) = (h3, sb3, o3, a3)"
    by (rule prod_cases4)
  obtain h4 sb4 o4 a4 where r4:
    "(case s_offset b of
        Some n \<Rightarrow> (case append_s g h3 a3 [VInt (sint n)] of
                    (h, args) \<Rightarrow> (h, sb3 @ '' OFFSET $'' @ fmt_d o3, o3 + 1, args))
      | None \<Rightarrow> (h3, sb3, o3, a3)) = (h4, sb4, o4, a4)"
    by (rule prod_cases4)
  have res: "(h', sql, s') = (h4, sb4, a4)"
    using run unfolding SelectBuilder_Build_s_def Let_def sb0_def[symmetric] r1 prod.case r2 r3 r4
    by simp
  note s1 = writeStage_sound[OF le_refl pw kept_NilSlice_start r1, unfolded elems_NilSlice]
  note f1 = kept_facts[OF s1[THEN conjunct1]]
  note e1 = s1[THEN conjunct2]
  note c1 = preds_cong[OF ph f1(1) f1(2)]
  note s2 = writeStage_sound[OF f1(1) c1(1) f1(3) f1(4) r2, unfolded c1(2)]
  note f2 = kept_facts[OF s2[THEN conjunct1]]
  note e2 = s2[THEN conjunct2]
  have l2: "?k \<le> length h2" using f1(1) f2(1) by simp
  note s3 = appendStage_sound[OF l2 f2(3) f2(4) r3]
  note f3 = kept_facts[OF s3[THEN conjunct1]]
  note e3 = s3[THEN conjunct2]
  have l3: "?k \<le> length h3" using l2 f3(1) by simp
  note s4 = appendStage_sound[OF l3 f3(3) f3(4) r4]
  note f4 = kept_facts[OF s4[THEN conjunct1]]
  note e4 = s4[THEN conjunct2]
  have kp: "kept ?k h h4 a4"
    using f1 f2 f3 f4 by (simp add: kept_def)
  have pure: "Build (readBuilder h (SelectS b)) = (sb4, elems h4 a4)"
    unfolding readBuilder.simps Build.simps SelectBuilder_Build_def Let_def
      SelectBuilder.select_convs sb0_def[symmetric] e1 prod.case e2 e3 e4
    by (rule refl)
  show ?thesis using kp pure res by simp
qed

lemma InsertBuilder_Build_s_sound:
  assumes wf: "wfBuilder h (InsertS b)"
    and run: "InsertBuilder_Build_s g h b = (h', sql, s')"
  shows "kept (length h) h h' s' \<and> Build (readBuilder h (InsertS b)) = (sql, elems h' s')"
proof -
  let ?k = "length h"
  define sb0 where "sb0 = ((''INSERT INTO '' @ i_table b)
       @ (if length (i_columns b) > 0 then '' ('' @ Join (i_columns b) '', '' @ '')'' else []))
       @ '' VALUES ''"
  have sb0': "(if length (i_columns b) > 0
               then (''INSERT INTO '' @ i_table b) @ '' ('' @ Join (i_columns b) '', '' @ '')''
               else ''INSERT INTO '' @ i_table b) @ '' VALUES '' = sb0"
    by (simp add: sb0_def)
  have rows: "\<forall>row\<in>set (i_values b). wfSlice h row \<and> below ?k row"
    using wf by (auto simp: wfBuilder_def intro!: wfSlice_below)
  obtain h1 sb1 a1 o1 where r1: "insertRows_s g h 0 (i_values b) sb0 NilSlice 1 = (h1, sb1, a1, o1)"
    by (rule prod_cases4)
  have res: "(h', sql, s')
      = (h1, (if length (i_returning b) > 0
              then (if i_onConflict b \<noteq> [] then sb1 @ '' ON CONFLICT '' @ i_onConflict b else sb1)
                   @ '' RETURNING '' @ Join (i_returning b) '', ''
              else (if i_onConflict b \<noteq> [] then sb1 @ '' ON CONFLICT '' @ i_onConflict b else sb1)),
         a1)"
    using run unfolding InsertBuilder_Build_s_def Let_def sb0' r1 prod.case by simp
  note s1 = insertRows_s_sound[OF le_refl rows kept_NilSlice_start r1, unfolded elems_NilSlice]
  have pure: "Build (readBuilder h (InsertS b))
      = ((if length (i_returning b) > 0
              then (if i_onConflict b \<noteq> [] then sb1 @ '' ON CONFLICT '' @ i_onConflict b else sb1)
                   @ '' RETURNING '' @ Join (i_returning b) '', ''
              else (if i_onConflict b \<noteq> [] then sb1 @ '' ON CONFLICT '' @ i_onConflict b else sb1)),
         elems h1 a1)"
    unfolding readBuilder.simps Build.simps InsertBuilder_Build_def Let_def
      InsertBuilder.select_convs sb0' s1[THEN conjunct2] prod.case
    by (rule refl)
  show ?thesis using s1[THEN conjunct1] pure res by simp
qed

lemma UpdateBuilder_Build_s_sound:
  assumes wf: "wfBuilder h (UpdateS b)"
    and run: "UpdateBuilder_Build_s g h b = (h', sql, s')"
  shows "kept (length h) h h' s' \<and> Build (readBuilder h (UpdateS b)) = (sql, elems h' s')"
proof -
  let ?k = "length h"
  let ?f = "map_PredicateOf (elems h)"
  have pw: "\<forall>p\<in>set (u_where b). \<forall>s\<in>set_PredicateOf p. wfSlice h s \<and> below ?k s"
    using wf by (auto simp: wfBuilder_def intro!: wfSlice_below)
  obtain h1 sp1 a1 o1 where r1: "updateSets_s g h (u_sets b) [] NilSlice 1 = (h1, sp1, a1, o1)"
    by (rule prod_cases4)
  let ?sb1 = "(''UPDATE '' @ u_table b @ '' SET '') @ Join sp1 '', ''"
  obtain h2 sb2 o2 a2 where r2:
    "(if length (u_where b) > 0
      then writePredicates_s g h1 (?sb1 @ '' WHERE '') (u_where b) o1 a1
      else (h1, ?sb1, o1, a1)) = (h2, sb2, o2, a2)"
    by (rule prod_cases4)
  have res: "(h', sql, s')
      = (h2, (if length (u_returning b) > 0
              then sb2 @ '' RETURNING '' @ Join (u_returning b) '', '' else sb2), a2)"
    using run unfolding UpdateBuilder_Build_s_def Let_def r1 prod.case r2 by simp
  note s1 = updateSets_s_sound[OF le_refl kept_NilSlice_start r1, unfolded elems_NilSlice]
  note f1 = kept_facts[OF s1[THEN conjunct1]]
  note c1 = preds_cong[OF pw f1(1) f1(2)]
  note s2 = writeStage_sound[OF f1(1) c1(1) f1(3) f1(4) r2, unfolded c1(2)]
  note f2 = kept_facts[OF s2[THEN conjunct1]]
  have kp: "kept ?k h h2 a2" using f1 f2 by (simp add: kept_def)
  have pure: "Build (readBuilder h (UpdateS b))
      = ((if length (u_returning b) > 0
              then sb2 @ '' RETURNING '' @ Join (u_returning b) '', '' else sb2), elems h2 a2)"
    unfolding readBuilder.simps Build.simps UpdateBuilder_Build_def Let_def
      UpdateBuilder.select_convs s1[THEN conjunct2] prod.case s2[THEN conjunct2]
    by (rule refl)
  show ?thesis using kp pure res by simp
qed

lemma DeleteBuilder_Build_s_sound:
  assumes wf: "wfBuilder h (DeleteS b)"
    and run: "DeleteBuilder_Build_s g h b = (h', sql, s')"
  shows "kept (length h) h h' s' \<and> Build (readBuilder h (DeleteS b)) = (sql, elems h' s')"
proof -
  let ?k = "length h"
  have pw: "\<forall>p\<in>set (d_where b). \<forall>s\<in>set_PredicateOf p. wfSlice h s \<and> below ?k s"
    using wf by (auto simp: wfBuilder_def intro!: wfSlice_below)
  let ?sb0 = "''DELETE FROM '' @ d_table b"
  obtain h1 sb1 o1 a1 where r1:
    "(if length (d_where b) > 0
      then writePredicates_s g h (?sb0 @ '' WHERE '') (d_where b) 1 NilSlice
      else (h, ?sb0, 1, NilSlice)) = (h1, sb1, o1, a1)"
    by (rule prod_cases4)
  have res: "(h', sql, s')
      = (h1, (if length (d_returning b) > 0
              then sb1 @ '' RETURNING '' @ Join (d_returning b) '', '' else sb1), a1)"
    using run unfolding DeleteBuilder_Build_s_def Let_def r1 prod.case by simp
  note s1 = writeStage_sound[OF le_refl pw kept_NilSlice_start r1, unfolded elems_NilSlice]
  have pure: "Build (readBuilder h (DeleteS b))
      = ((if length (d_returning b) > 0
              then sb1 @ '' RETURNING '' @ Join (d_returning b) '', '' else sb1), elems h1 a1)"
    unfolding readBuilder.simps Build.simps DeleteBuilder_Build_def Let_def
      DeleteBuilder.select_convs s1[THEN conjunct2] prod.case
    by (rule refl)
  show ?thesis using s1[THEN conjunct1] pure res by simp
qed

lemma Build_s_sound:
  assumes "wfBuilder h b" "Build_s g h b = (h', sql, s')"
  shows "kept (length h) h h' s' \<and> Build (readBuilder h b) = (sql, elems h' s')"
proof (cases b)
  case (SelectS x)
  with assms show ?thesis using SelectBuilder_Build_s_sound[of h x g h' sql s'] by simp
next
  case (InsertS x)
  with assms show ?thesis using InsertBuilder_Build_s_sound[of h x g h' sql s'] by simp
next
  case (UpdateS x)
  with assms show ?thesis using UpdateBuilder_Build_s_sound[of h x g h' sql s'] by simp
next
  case (DeleteS x)
  with assms show ?thesis using DeleteBuilder_Build_s_sound[of h x g h' sql s'] by simp
qed

lemma wfBuilder_extends: "wfBuilder h b \<Longrightarrow> extends h h' \<Longrightarrow> wfBuilder h' b"
  by (auto simp: wfBuilder_def intro: wfSlice_extends)

lemma readBuilder_extends:
  assumes "wfBuilder h b" "extends h h'"
  shows "readBuilder h' b = readBuilder h b"
proof -
  have e: "\<And>s. s \<in> slicesOf b \<Longrightarrow> elems h' s = elems h s"
    using assms by (auto simp: wfBuilder_def intro: elems_extends)
  show ?thesis
    using e by (cases b) (auto intro!: PredicateOf.map_cong)
qed

lemma Build_s_twice:
  assumes "wfBuilder h b"
    and "Build_s g1 h b = (h1, sql1, a1)"
    and "Build_s g2 h1 b = (h2, sql2, a2)"
  shows "sql2 = sql1 \<and> elems h2 a2 = elems h1 a1
       \<and> extends h h2 \<and> readBuilder h2 b = readBuilder h b
       \<and> elems h2 a1 = elems h1 a1
       \<and> Build (readBuilder h b) = (sql1, elems h1 a1)"
proof -
  note s1 = Build_s_sound[OF assms(1,2)]
  have x1: "extends h h1" using s1[THEN conjunct1] by (rule kept_extends)
  have w1: "wfBuilder h1 b" using assms(1) x1 by (rule wfBuilder_extends)
  have rb1: "readBuilder h1 b = readBuilder h b" using assms(1) x1 by (rule readBuilder_extends)
  note s2 = Build_s_sound[OF w1 assms(3)]
  have x2: "extends h1 h2" using s2[THEN conjunct1] by (rule kept_extends)
  have x: "extends h h2" using x1 x2 by (rule extends_trans)
  have wa1: "wfSlice h1 a1" using s1 by (simp add: kept_def)
  have keep1: "elems h2 a1 = elems h1 a1" using wa1 x2 by (rule elems_extends)
  have rb2: "readBuilder h2 b = readBuilder h b" using assms(1) x by (rule readBuilder_extends)
  show ?thesis using s1 s2 rb1 rb2 x keep1 by simp
qed


section \<open>Named Build over the store\<close>

text \<open>
  The named \<open>Build\<close> over the store of maps stores only into maps that it has made itself,
  and its text and the map of its arguments are those of \<open>Build\<close> on the builder read as
  a value. First the predicates, then the stages of \<open>Build\<close>, the three \<open>Build\<close>
  methods, and two calls in sequence.
\<close>

lemma read_m_NilMap: "read_m h NilMap = Map.empty"
  by (simp add: read_m_def)

lemma read_m_cong: "belowRef k r \<Longrightarrow> take k h' = take k h \<Longrightarrow> read_m h' r = read_m h r"
  by (cases r) (auto simp: read_m_def belowRef_def dest: take_nth_eq)

lemma wfRef_below: "wfRef h r \<Longrightarrow> belowRef (length h) r"
  by (cases r) (auto simp: wfRef_def belowRef_def)

lemma wfRef_extends: "wfRef h r \<Longrightarrow> extends h h' \<Longrightarrow> wfRef h' r"
  using extends_length[of h h'] by (cases r) (auto simp: wfRef_def)

lemma read_m_extends: "wfRef h r \<Longrightarrow> extends h h' \<Longrightarrow> read_m h' r = read_m h r"
  by (cases r) (auto simp: wfRef_def read_m_def extends_nth)

lemma literal_m_props:
  assumes "literal_m h m = (h', r)"
  shows "extends h h'" "wfRef h' r" "read_m h' r = m"
  using assms by (auto simp: literal_m_def extends_def wfRef_def read_m_def)

lemma cmpN_m_sound:
  assumes "cmpN_m h col opr v c = (h', sql, r', c')"
  shows "extends h h' \<and> wfRef h' r' \<and> cmpN col opr v c = (sql, read_m h' r', c')"
proof -
  obtain c1 name where n: "nextParam c = (c1, name)" by (cases "nextParam c") auto
  obtain h1 r1 where l: "literal_m h [name \<mapsto> v] = (h1, r1)"
    by (cases "literal_m h [name \<mapsto> v]") auto
  from assms n l have e: "h' = h1" "r' = r1" "sql = col @ '' '' @ opr @ '' @'' @ name" "c' = c1"
    by (simp_all add: cmpN_m_def)
  show ?thesis using literal_m_props[OF l] e n by (simp add: cmpN_def)
qed

lemma inLoopN_m_sound:
  "a < length h \<Longrightarrow> inLoopN_m h vals phs a c = (h', phs', c')
   \<Longrightarrow> h' = h[a := h' ! a] \<and> inLoopN vals phs (h ! a) c = (phs', h' ! a, c')"
proof (induction vals arbitrary: h phs c)
  case Nil
  then show ?case by simp
next
  case (Cons v vs)
  obtain c1 name where n: "nextParam c = (c1, name)" by (cases "nextParam c") auto
  let ?h1 = "store_m h a name v"
  from Cons.prems(2) n
  have rest: "inLoopN_m ?h1 vs (phs @ [''@'' @ name]) a c1 = (h', phs', c')" by simp
  have l1: "a < length ?h1" using Cons.prems(1) by (simp add: store_m_def)
  from Cons.IH[OF l1 rest]
  have ih: "h' = ?h1[a := h' ! a]"
    "inLoopN vs (phs @ [''@'' @ name]) (?h1 ! a) c1 = (phs', h' ! a, c')"
    by simp_all
  have a1: "?h1 ! a = (h ! a)(name \<mapsto> v)" using Cons.prems(1) by (simp add: store_m_def)
  have "h' = h[a := h' ! a]" using ih(1) by (simp add: store_m_def)
  then show ?case using ih(2) a1 n by simp
qed

lemma updateSets_m_sound:
  "a < length h \<Longrightarrow> updateSets_m h ss sp a c = (h', sp', c')
   \<Longrightarrow> h' = h[a := h' ! a] \<and> updateSets_named ss sp (h ! a) c = (sp', h' ! a, c')"
proof (induction ss arbitrary: h sp c)
  case Nil
  then show ?case by simp
next
  case (Cons s ss)
  obtain c1 name where n: "nextParam c = (c1, name)" by (cases "nextParam c") auto
  let ?h1 = "store_m h a name (sc_val s)"
  from Cons.prems(2) n
  have rest: "updateSets_m ?h1 ss (sp @ [sc_col s @ '' = @'' @ name]) a c1 = (h', sp', c')" by simp
  have l1: "a < length ?h1" using Cons.prems(1) by (simp add: store_m_def)
  from Cons.IH[OF l1 rest]
  have ih: "h' = ?h1[a := h' ! a]"
    "updateSets_named ss (sp @ [sc_col s @ '' = @'' @ name]) (?h1 ! a) c1 = (sp', h' ! a, c')"
    by simp_all
  have a1: "?h1 ! a = (h ! a)(name \<mapsto> sc_val s)" using Cons.prems(1) by (simp add: store_m_def)
  have "h' = h[a := h' ! a]" using ih(1) by (simp add: store_m_def)
  then show ?case using ih(2) a1 n by simp
qed

lemma preds_m_cong:
  assumes "\<forall>p\<in>set ps. \<forall>r\<in>set_NamedPredicateOf p. belowRef k r" "take k h' = take k h"
  shows "map (map_NamedPredicateOf (read_m h')) ps = map (map_NamedPredicateOf (read_m h)) ps"
  using assms by (auto intro!: NamedPredicateOf.map_cong read_m_cong)

lemma named_store_sound:
  "(\<forall>r\<in>set_NamedPredicateOf p. wfRef h r)
   \<Longrightarrow> ToSQL_m h p c = (h', sql, r', c')
   \<Longrightarrow> extends h h' \<and> wfRef h' r'
       \<and> ToSQL_named (map_NamedPredicateOf (read_m h) p) c = (sql, read_m h' r', c')"
  "(\<forall>p\<in>set ps. \<forall>r\<in>set_NamedPredicateOf p. wfRef h r)
   \<Longrightarrow> combinePredicates_m h ps op c = (h', sql, r', c')
   \<Longrightarrow> extends h h' \<and> wfRef h' r'
       \<and> combinePredicates_named (map (map_NamedPredicateOf (read_m h)) ps) op c
           = (sql, read_m h' r', c')"
  "k \<le> a \<Longrightarrow> a < length h
   \<Longrightarrow> (\<forall>p\<in>set ps. \<forall>r\<in>set_NamedPredicateOf p. belowRef k r)
   \<Longrightarrow> combineLoop_m h ps parts a c = (h', parts', c')
   \<Longrightarrow> length h \<le> length h' \<and> take k h' = take k h
       \<and> combineLoop_named (map (map_NamedPredicateOf (read_m h)) ps) parts (h ! a) c
           = (parts', h' ! a, c')"
proof (induction h p c and h ps op c and h ps parts a c
       arbitrary: h' sql r' c' and h' sql r' c' and k h' parts' c'
       rule: ToSQL_m_combinePredicates_m_combineLoop_m.induct)
  case (1 h sql args counter)
  then show ?case by (auto simp: extends_refl wfRef_def read_m_def split: if_splits)
next
  case (2 h col v counter)
  then show ?case using cmpN_m_sound[of h col "''=''" v counter h' sql r' c'] by simp
next
  case (3 h col v counter)
  then show ?case using cmpN_m_sound[of h col "''!=''" v counter h' sql r' c'] by simp
next
  case (4 h col v counter)
  then show ?case using cmpN_m_sound[of h col "''>''" v counter h' sql r' c'] by simp
next
  case (5 h col v counter)
  then show ?case using cmpN_m_sound[of h col "''>=''" v counter h' sql r' c'] by simp
next
  case (6 h col v counter)
  then show ?case using cmpN_m_sound[of h col "''<''" v counter h' sql r' c'] by simp
next
  case (7 h col v counter)
  then show ?case using cmpN_m_sound[of h col "''<=''" v counter h' sql r' c'] by simp
next
  case (8 h col pattern counter)
  then show ?case using cmpN_m_sound[of h col "''LIKE''" "VStr pattern" counter h' sql r' c'] by simp
next
  case (9 h col pattern counter)
  then show ?case using cmpN_m_sound[of h col "''ILIKE''" "VStr pattern" counter h' sql r' c'] by simp
next
  case (10 h col vals counter)
  let ?h0 = "h @ [Map.empty]"
  obtain h1 phs1 c1 where r: "inLoopN_m ?h0 vals [] (length h) counter = (h1, phs1, c1)"
    by (rule prod_cases3)
  from "10.prems"(2) r have e: "h' = h1" "r' = MapAt (length h)" "c' = c1"
      "sql = col @ '' IN ('' @ Join phs1 '', '' @ '')''"
    by (simp_all add: make_m_def)
  have l: "length h < length ?h0" by simp
  from inLoopN_m_sound[OF l r]
  have s: "h1 = ?h0[length h := h1 ! length h]"
    "inLoopN vals [] Map.empty counter = (phs1, h1 ! length h, c1)"
    by simp_all
  have x: "extends h h1"
  proof -
    have "length h1 = Suc (length h)" using s(1) by (metis length_list_update length_append_singleton)
    moreover have "take (length h) h1 = h" using s(1) by (metis append_eq_conv_conj list_update_length)
    ultimately show ?thesis by (simp add: extends_def)
  qed
  have w: "wfRef h1 (MapAt (length h))"
    using s(1) by (metis wfRef_def mref.simps(5) l length_list_update)
  have rd: "read_m h1 (MapAt (length h)) = h1 ! length h" by (simp add: read_m_def)
  show ?case using x w s(2) e by (simp add: rd)
next
  case (11 h col low high counter)
  obtain c1 lowName where n1: "nextParam counter = (c1, lowName)" by (cases "nextParam counter") auto
  obtain c2 highName where n2: "nextParam c1 = (c2, highName)" by (cases "nextParam c1") auto
  obtain h1 r1 where l: "literal_m h [lowName \<mapsto> low, highName \<mapsto> high] = (h1, r1)"
    by (cases "literal_m h [lowName \<mapsto> low, highName \<mapsto> high]") auto
  from "11.prems"(2) n1 n2 l have e: "h' = h1" "r' = r1"
      "sql = col @ '' BETWEEN @'' @ lowName @ '' AND @'' @ highName" "c' = c2"
    by simp_all
  show ?case using literal_m_props[OF l] e n1 n2 by (auto simp: fun_eq_iff)
next
  case (12 h col counter)
  then show ?case by (auto simp: extends_refl wfRef_def read_m_def)
next
  case (13 h col counter)
  then show ?case by (auto simp: extends_refl wfRef_def read_m_def)
next
  case (14 h preds counter)
  from "14.IH"[of h' sql r' c'] "14.prems" show ?case by simp
next
  case (15 h preds counter)
  from "15.IH"[of h' sql r' c'] "15.prems" show ?case by simp
next
  case (16 h pred counter)
  obtain h1 sql1 r1 c1 where r: "ToSQL_m h pred counter = (h1, sql1, r1, c1)"
    by (rule prod_cases4)
  from "16.prems"(2) r have e: "h' = h1" "r' = r1" "sql = ''NOT ('' @ sql1 @ '')''" "c' = c1"
    by simp_all
  from "16.IH"[OF _ r] "16.prems"(1) show ?case using e by simp
next
  case (17 h op counter)
  then show ?case by (auto simp: extends_refl wfRef_def read_m_def)
next
  case (18 h p op counter)
  from "18.IH"[of h' sql r' c'] "18.prems" show ?case by simp
next
  case (19 h p q ps op counter)
  let ?h0 = "h @ [Map.empty]"
  obtain h1 parts1 c1 where r: "combineLoop_m ?h0 (p # q # ps) [] (length h) counter = (h1, parts1, c1)"
    by (rule prod_cases3)
  from "19.prems"(2) r have e: "h' = h1" "r' = MapAt (length h)" "c' = c1"
      "sql = ''('' @ Join parts1 ('' '' @ op @ '' '') @ '')''"
    by (simp_all add: make_m_def)
  have pre: "\<forall>p'\<in>set (p # q # ps). \<forall>r\<in>set_NamedPredicateOf p'. belowRef (length h) r"
    using "19.prems"(1) by (auto simp: wfRef_below)
  have l: "length h < length ?h0" by simp
  have mk: "make_m h = (?h0, length h)" by (simp add: make_m_def)
  from "19.IH"[OF mk[symmetric] refl le_refl l pre r]
  have c: "length ?h0 \<le> length h1" "take (length h) h1 = take (length h) ?h0"
    "combineLoop_named (map (map_NamedPredicateOf (read_m ?h0)) (p # q # ps)) [] (?h0 ! length h) counter
       = (parts1, h1 ! length h, c1)"
    by simp_all
  have x: "extends h h1" using c(1,2) by (simp add: extends_def)
  have w: "wfRef h1 (MapAt (length h))" using c(1) by (simp add: wfRef_def)
  have t0: "take (length h) ?h0 = take (length h) h" by simp
  note same = preds_m_cong[OF pre t0]
  have rd: "read_m h1 (MapAt (length h)) = h1 ! length h" by (simp add: read_m_def)
  have c3: "combineLoop_named (map (map_NamedPredicateOf (read_m h)) (p # q # ps)) [] Map.empty counter
       = (parts1, read_m h1 (MapAt (length h)), c1)"
    using c(3) unfolding same rd by simp
  show ?case using x w c3 e by simp
next
  case (20 h parts allArgs counter)
  then show ?case by simp
next
  case (21 h p ps parts allArgs counter)
  obtain h1 sql1 a1 n1 where r: "ToSQL_m h p counter = (h1, sql1, a1, n1)"
    by (rule prod_cases4)
  let ?h2 = "mergeArgs_m h1 allArgs a1"
  from "21.prems"(4) r
  have rest: "combineLoop_m ?h2 ps (parts @ [sql1]) allArgs n1 = (h', parts', c')"
    by simp
  have bp: "\<forall>r\<in>set_NamedPredicateOf p. belowRef k r" using "21.prems"(3) by simp
  have wfp: "\<forall>r\<in>set_NamedPredicateOf p. wfRef h r"
  proof
    fix r assume "r \<in> set_NamedPredicateOf p"
    then have "belowRef k r" using bp by simp
    then show "wfRef h r" using "21.prems"(1,2) by (cases r) (auto simp: belowRef_def wfRef_def)
  qed
  from "21.IH"(1)[OF wfp r]
  have p1: "extends h h1" "wfRef h1 a1"
    "ToSQL_named (map_NamedPredicateOf (read_m h) p) counter = (sql1, read_m h1 a1, n1)"
    by simp_all
  have l1: "allArgs < length h1" using "21.prems"(2) extends_length[OF p1(1)] by simp
  have l2: "allArgs < length ?h2" using l1 by (simp add: mergeArgs_m_def)
  have kh: "k \<le> length h" using "21.prems"(1,2) by simp
  have t1: "take k h1 = take k h" using p1(1) kh by (rule extends_take)
  have t2: "take k ?h2 = take k h" using t1 "21.prems"(1) by (simp add: mergeArgs_m_def)
  have pre2: "\<forall>p'\<in>set ps. \<forall>r\<in>set_NamedPredicateOf p'. belowRef k r"
    using "21.prems"(3) by simp
  note same = preds_m_cong[OF pre2 t2]
  have acc: "?h2 ! allArgs = mergeArgs (h ! allArgs) (read_m h1 a1)"
    using l1 extends_nth[OF p1(1) "21.prems"(2)] by (simp add: mergeArgs_m_def)
  from "21.IH"(2)[OF refl r[symmetric] refl refl refl "21.prems"(1) l2 pre2 rest]
  have c: "length ?h2 \<le> length h'" "take k h' = take k ?h2"
    "combineLoop_named (map (map_NamedPredicateOf (read_m ?h2)) ps) (parts @ [sql1]) (?h2 ! allArgs) n1
       = (parts', h' ! allArgs, c')"
    by simp_all
  have len: "length h \<le> length h'"
    using extends_length[OF p1(1)] c(1) by (simp add: mergeArgs_m_def)
  show ?case
    using len c(2) t2 c(3) p1(3) acc unfolding same by simp
qed

lemma kept_m_facts:
  assumes "kept_m k h h' a"
  shows "length h \<le> length h'" "take k h' = take k h" "a < length h'" "k \<le> a"
  using assms by (simp_all add: kept_m_def)

lemma kept_m_update:
  assumes "a < length h" "k \<le> a"
  shows "kept_m k h (h[a := x]) a"
  using assms by (simp add: kept_m_def)

lemma writePredicatesFrom_m_sound:
  "k \<le> a \<Longrightarrow> a < length h
   \<Longrightarrow> (\<forall>p\<in>set ps. \<forall>r\<in>set_NamedPredicateOf p. belowRef k r)
   \<Longrightarrow> writePredicatesFrom_m h i sb ps c a = (h', sb', c')
   \<Longrightarrow> kept_m k h h' a
       \<and> writePredicatesFrom_named i sb (map (map_NamedPredicateOf (read_m h)) ps) c (h ! a)
           = (sb', c', h' ! a)"
proof (induction ps arbitrary: h i sb c)
  case Nil
  then show ?case by (simp add: kept_m_def)
next
  case (Cons p ps)
  obtain h1 sql1 a1 n1 where r: "ToSQL_m h p c = (h1, sql1, a1, n1)"
    by (rule prod_cases4)
  let ?h2 = "mergeArgs_m h1 a a1"
  let ?sb1 = "(if i > 0 then sb @ '' AND '' else sb) @ sql1"
  from Cons.prems(4) r
  have rest: "writePredicatesFrom_m ?h2 (Suc i) ?sb1 ps n1 a = (h', sb', c')"
    by (simp add: Let_def)
  have bp: "\<forall>r\<in>set_NamedPredicateOf p. belowRef k r" using Cons.prems(3) by simp
  have wfp: "\<forall>r\<in>set_NamedPredicateOf p. wfRef h r"
  proof
    fix r assume "r \<in> set_NamedPredicateOf p"
    then have "belowRef k r" using bp by simp
    then show "wfRef h r" using Cons.prems(1,2) by (cases r) (auto simp: belowRef_def wfRef_def)
  qed
  from named_store_sound(1)[OF wfp r]
  have p1: "extends h h1" "wfRef h1 a1"
    "ToSQL_named (map_NamedPredicateOf (read_m h) p) c = (sql1, read_m h1 a1, n1)"
    by simp_all
  have l1: "a < length h1" using Cons.prems(2) extends_length[OF p1(1)] by simp
  have l2: "a < length ?h2" using l1 by (simp add: mergeArgs_m_def)
  have kh: "k \<le> length h" using Cons.prems(1,2) by simp
  have t1: "take k h1 = take k h" using p1(1) kh by (rule extends_take)
  have t2: "take k ?h2 = take k h" using t1 Cons.prems(1) by (simp add: mergeArgs_m_def)
  have pre2: "\<forall>p'\<in>set ps. \<forall>r\<in>set_NamedPredicateOf p'. belowRef k r"
    using Cons.prems(3) by simp
  note same = preds_m_cong[OF pre2 t2]
  have acc: "?h2 ! a = mergeArgs (h ! a) (read_m h1 a1)"
    using l1 extends_nth[OF p1(1) Cons.prems(2)] by (simp add: mergeArgs_m_def)
  from Cons.IH[OF Cons.prems(1) l2 pre2 rest]
  have c: "kept_m k ?h2 h' a"
    "writePredicatesFrom_named (Suc i) ?sb1 (map (map_NamedPredicateOf (read_m ?h2)) ps) n1 (?h2 ! a)
       = (sb', c', h' ! a)"
    by simp_all
  have kp: "kept_m k h h' a"
    using c(1) t2 extends_length[OF p1(1)] by (simp add: kept_m_def mergeArgs_m_def)
  show ?case
    using kp c(2) p1(3) acc unfolding same by (simp add: Let_def)
qed

lemma writeStage_m_sound:
  assumes "k \<le> a" "a < length h"
    and "\<forall>p\<in>set ps. \<forall>r\<in>set_NamedPredicateOf p. belowRef k r"
    and "(if length ps > 0 then writePredicates_m h (sb @ kw) ps c a else (h, sb, c))
           = (h', sb', c')"
  shows "kept_m k h h' a
       \<and> (if length (map (map_NamedPredicateOf (read_m h)) ps) > 0
           then writePredicates_named (sb @ kw) (map (map_NamedPredicateOf (read_m h)) ps) c (h ! a)
           else (sb, c, h ! a))
           = (sb', c', h' ! a)"
proof (cases "ps = []")
  case True
  with assms show ?thesis by (simp add: kept_m_def)
next
  case False
  with assms(4) have w: "writePredicatesFrom_m h 0 (sb @ kw) ps c a = (h', sb', c')"
    by (simp add: writePredicates_m_def)
  from writePredicatesFrom_m_sound[OF assms(1-3) w] False
  show ?thesis by (simp add: writePredicates_named_def)
qed

lemma storeStage_m_sound:
  assumes "k \<le> a" "a < length h"
    and "(case lim of
            Some n \<Rightarrow> (case nextParam c of
                        (counter, name) \<Rightarrow> (store_m h a name (VInt (sint n)), sb @ kw @ name, counter))
          | None \<Rightarrow> (h, sb, c)) = (h', sb', c')"
  shows "kept_m k h h' a
       \<and> (case lim of
            Some n \<Rightarrow> (case nextParam c of
                        (counter, name) \<Rightarrow> (sb @ kw @ name, counter, (h ! a)(name \<mapsto> VInt (sint n))))
          | None \<Rightarrow> (sb, c, h ! a)) = (sb', c', h' ! a)"
proof (cases lim)
  case None
  with assms show ?thesis by (simp add: kept_m_def)
next
  case (Some n)
  obtain c1 name where np: "nextParam c = (c1, name)" by (cases "nextParam c") auto
  from assms(3) Some np
  have e: "h' = store_m h a name (VInt (sint n))" "sb' = sb @ kw @ name" "c' = c1"
    by simp_all
  show ?thesis using e Some np assms(1,2) by (simp add: store_m_def kept_m_def)
qed

lemma updateSets_m_kept:
  assumes "k \<le> a" "a < length h" "updateSets_m h ss sp a c = (h', sp', c')"
  shows "kept_m k h h' a \<and> updateSets_named ss sp (h ! a) c = (sp', h' ! a, c')"
proof -
  note s = updateSets_m_sound[OF assms(2,3)]
  have "kept_m k h (h[a := h' ! a]) a" using assms(2,1) by (rule kept_m_update)
  then show ?thesis using s by simp
qed

lemma made_facts:
  "length h \<le> length h" "length h < length (h @ [Map.empty :: namedArgs])"
  "(h @ [Map.empty :: namedArgs]) ! length h = Map.empty"
  "take (length h) (h @ [Map.empty :: namedArgs]) = take (length h) h"
  by simp_all

lemma kept_m_made:
  assumes "kept_m (length h) (h @ [m]) h' (length h)"
  shows "extends h h'" "wfRef h' (MapAt (length h))" "read_m h' (MapAt (length h)) = h' ! length h"
  using assms by (simp_all add: kept_m_def extends_def wfRef_def read_m_def)

lemma kept_m_trans:
  "kept_m k h h1 a \<Longrightarrow> kept_m k h1 h2 a \<Longrightarrow> kept_m k h h2 a"
  by (simp add: kept_m_def)

lemma SelectBuilder_Build_m_sound:
  assumes wf: "wfBuilder_m h (SelectM b)"
    and run: "SelectBuilder_Build_m h b = (h', sql, r')"
  shows "extends h h' \<and> wfRef h' r'
       \<and> Build_named (readBuilder_m h (SelectM b)) = (sql, read_m h' r')"
proof -
  let ?k = "length h"
  let ?h0 = "h @ [Map.empty :: namedArgs]"
  define sb0 where "sb0 = foldl writeJoin ((((if s_distinct b then ''SELECT DISTINCT '' else ''SELECT '')
                @ Join (s_fields b) '', '') @ '' FROM '') @ s_from b) (s_joins b)"
  have pw: "\<forall>p\<in>set (s_where b). \<forall>r\<in>set_NamedPredicateOf p. belowRef ?k r"
    and ph: "\<forall>p\<in>set (s_having b). \<forall>r\<in>set_NamedPredicateOf p. belowRef ?k r"
    using wf by (auto simp: wfBuilder_m_def intro!: wfRef_below)
  obtain h1 sb1 c1 where r1:
    "(if length (s_where b) > 0
      then writePredicates_m ?h0 (sb0 @ '' WHERE '') (s_where b) 0 ?k
      else (?h0, sb0, 0)) = (h1, sb1, c1)"
    by (rule prod_cases3)
  let ?sbg = "if length (s_groupBy b) > 0
              then sb1 @ '' GROUP BY '' @ Join (s_groupBy b) '', '' else sb1"
  obtain h2 sb2 c2 where r2:
    "(if length (s_having b) > 0
      then writePredicates_m h1 (?sbg @ '' HAVING '') (s_having b) c1 ?k
      else (h1, ?sbg, c1)) = (h2, sb2, c2)"
    by (rule prod_cases3)
  let ?sbo = "if length (s_orderBy b) > 0
              then sb2 @ '' ORDER BY '' @
                   Join (map (\<lambda>ob. o_col ob @ '' '' @ OrderDir_String (o_dir ob)) (s_orderBy b)) '', ''
              else sb2"
  obtain h3 sb3 c3 where r3:
    "(case s_limit b of
        Some n \<Rightarrow> (case nextParam c2 of
                    (counter, name) \<Rightarrow> (store_m h2 ?k name (VInt (sint n)), ?sbo @ '' LIMIT @'' @ name, counter))
      | None \<Rightarrow> (h2, ?sbo, c2)) = (h3, sb3, c3)"
    by (rule prod_cases3)
  obtain h4 sb4 c4 where r4:
    "(case s_offset b of
        Some n \<Rightarrow> (case nextParam c3 of
                    (counter, name) \<Rightarrow> (store_m h3 ?k name (VInt (sint n)), sb3 @ '' OFFSET @'' @ name, counter))
      | None \<Rightarrow> (h3, sb3, c3)) = (h4, sb4, c4)"
    by (rule prod_cases3)
  have res: "(h', sql, r') = (h4, sb4, MapAt ?k)"
    using run unfolding SelectBuilder_Build_m_def make_m_def Let_def prod.case sb0_def[symmetric]
      r1 r2 r3 r4
    by simp
  note c0 = preds_m_cong[OF pw made_facts(4)]
  note s1 = writeStage_m_sound[OF made_facts(1) made_facts(2) pw r1, unfolded c0 made_facts(3)]
  note f1 = kept_m_facts[OF s1[THEN conjunct1]]
  note e1 = s1[THEN conjunct2]
  have t1: "take ?k h1 = take ?k h" using f1(2) by simp
  note d1 = preds_m_cong[OF ph t1]
  note s2 = writeStage_m_sound[OF f1(4) f1(3) ph r2, unfolded d1]
  note f2 = kept_m_facts[OF s2[THEN conjunct1]]
  note e2 = s2[THEN conjunct2]
  note s3 = storeStage_m_sound[OF f2(4) f2(3) r3]
  note f3 = kept_m_facts[OF s3[THEN conjunct1]]
  note e3 = s3[THEN conjunct2]
  note s4 = storeStage_m_sound[OF f3(4) f3(3) r4]
  note e4 = s4[THEN conjunct2]
  have kp: "kept_m ?k ?h0 h4 ?k"
    using s1[THEN conjunct1] s2[THEN conjunct1] s3[THEN conjunct1] s4[THEN conjunct1]
    by (blast intro: kept_m_trans)
  note m = kept_m_made[OF kp]
  have pure: "Build_named (readBuilder_m h (SelectM b)) = (sb4, h4 ! ?k)"
    unfolding readBuilder_m.simps Build_named.simps SelectBuilder_Build_named_def Let_def
      SelectBuilder.select_convs sb0_def[symmetric] e1 prod.case e2 e3 e4
    by (rule refl)
  show ?thesis using m pure res by simp
qed

lemma UpdateBuilder_Build_m_sound:
  assumes wf: "wfBuilder_m h (UpdateM b)"
    and run: "UpdateBuilder_Build_m h b = (h', sql, r')"
  shows "extends h h' \<and> wfRef h' r'
       \<and> Build_named (readBuilder_m h (UpdateM b)) = (sql, read_m h' r')"
proof -
  let ?k = "length h"
  let ?h0 = "h @ [Map.empty :: namedArgs]"
  have pw: "\<forall>p\<in>set (u_where b). \<forall>r\<in>set_NamedPredicateOf p. belowRef ?k r"
    using wf by (auto simp: wfBuilder_m_def intro!: wfRef_below)
  obtain h1 sp1 c1 where r1: "updateSets_m ?h0 (u_sets b) [] ?k 0 = (h1, sp1, c1)"
    by (rule prod_cases3)
  let ?sb1 = "(''UPDATE '' @ u_table b @ '' SET '') @ Join sp1 '', ''"
  obtain h2 sb2 c2 where r2:
    "(if length (u_where b) > 0
      then writePredicates_m h1 (?sb1 @ '' WHERE '') (u_where b) c1 ?k
      else (h1, ?sb1, c1)) = (h2, sb2, c2)"
    by (rule prod_cases3)
  have res: "(h', sql, r')
      = (h2, (if length (u_returning b) > 0
              then sb2 @ '' RETURNING '' @ Join (u_returning b) '', '' else sb2), MapAt ?k)"
    using run unfolding UpdateBuilder_Build_m_def make_m_def Let_def prod.case r1 r2 by simp
  note s1 = updateSets_m_kept[OF made_facts(1) made_facts(2) r1, unfolded made_facts(3)]
  note f1 = kept_m_facts[OF s1[THEN conjunct1]]
  have t1: "take ?k h1 = take ?k h" using f1(2) by simp
  note d1 = preds_m_cong[OF pw t1]
  note s2 = writeStage_m_sound[OF f1(4) f1(3) pw r2, unfolded d1]
  have kp: "kept_m ?k ?h0 h2 ?k"
    using s1[THEN conjunct1] s2[THEN conjunct1] by (blast intro: kept_m_trans)
  note m = kept_m_made[OF kp]
  have pure: "Build_named (readBuilder_m h (UpdateM b))
      = ((if length (u_returning b) > 0
              then sb2 @ '' RETURNING '' @ Join (u_returning b) '', '' else sb2), h2 ! ?k)"
    unfolding readBuilder_m.simps Build_named.simps UpdateBuilder_Build_named_def Let_def
      UpdateBuilder.select_convs s1[THEN conjunct2] prod.case s2[THEN conjunct2]
    by (rule refl)
  show ?thesis using m pure res by simp
qed

lemma DeleteBuilder_Build_m_sound:
  assumes wf: "wfBuilder_m h (DeleteM b)"
    and run: "DeleteBuilder_Build_m h b = (h', sql, r')"
  shows "extends h h' \<and> wfRef h' r'
       \<and> Build_named (readBuilder_m h (DeleteM b)) = (sql, read_m h' r')"
proof -
  let ?k = "length h"
  let ?h0 = "h @ [Map.empty :: namedArgs]"
  have pw: "\<forall>p\<in>set (d_where b). \<forall>r\<in>set_NamedPredicateOf p. belowRef ?k r"
    using wf by (auto simp: wfBuilder_m_def intro!: wfRef_below)
  let ?sb0 = "''DELETE FROM '' @ d_table b"
  obtain h1 sb1 c1 where r1:
    "(if length (d_where b) > 0
      then writePredicates_m ?h0 (?sb0 @ '' WHERE '') (d_where b) 0 ?k
      else (?h0, ?sb0, 0)) = (h1, sb1, c1)"
    by (rule prod_cases3)
  have res: "(h', sql, r')
      = (h1, (if length (d_returning b) > 0
              then sb1 @ '' RETURNING '' @ Join (d_returning b) '', '' else sb1), MapAt ?k)"
    using run unfolding DeleteBuilder_Build_m_def make_m_def Let_def prod.case r1 by simp
  note c0 = preds_m_cong[OF pw made_facts(4)]
  note s1 = writeStage_m_sound[OF made_facts(1) made_facts(2) pw r1, unfolded c0 made_facts(3)]
  note m = kept_m_made[OF s1[THEN conjunct1]]
  have pure: "Build_named (readBuilder_m h (DeleteM b))
      = ((if length (d_returning b) > 0
              then sb1 @ '' RETURNING '' @ Join (d_returning b) '', '' else sb1), h1 ! ?k)"
    unfolding readBuilder_m.simps Build_named.simps DeleteBuilder_Build_named_def Let_def
      DeleteBuilder.select_convs s1[THEN conjunct2] prod.case
    by (rule refl)
  show ?thesis using m pure res by simp
qed

lemma Build_m_sound:
  assumes "wfBuilder_m h b" "Build_m h b = (h', sql, r')"
  shows "extends h h' \<and> wfRef h' r' \<and> Build_named (readBuilder_m h b) = (sql, read_m h' r')"
proof (cases b)
  case (SelectM x)
  with assms show ?thesis using SelectBuilder_Build_m_sound[of h x h' sql r'] by simp
next
  case (UpdateM x)
  with assms show ?thesis using UpdateBuilder_Build_m_sound[of h x h' sql r'] by simp
next
  case (DeleteM x)
  with assms show ?thesis using DeleteBuilder_Build_m_sound[of h x h' sql r'] by simp
qed

lemma wfBuilder_m_extends: "wfBuilder_m h b \<Longrightarrow> extends h h' \<Longrightarrow> wfBuilder_m h' b"
  by (auto simp: wfBuilder_m_def intro: wfRef_extends)

lemma readBuilder_m_extends:
  assumes "wfBuilder_m h b" "extends h h'"
  shows "readBuilder_m h' b = readBuilder_m h b"
proof -
  have e: "\<And>r. r \<in> refsOf b \<Longrightarrow> read_m h' r = read_m h r"
    using assms by (auto simp: wfBuilder_m_def intro: read_m_extends)
  show ?thesis
    using e by (cases b) (auto intro!: NamedPredicateOf.map_cong)
qed

lemma Build_m_twice:
  assumes "wfBuilder_m h b"
    and "Build_m h b = (h1, sql1, r1)"
    and "Build_m h1 b = (h2, sql2, r2)"
  shows "sql2 = sql1 \<and> read_m h2 r2 = read_m h1 r1
       \<and> extends h h2 \<and> readBuilder_m h2 b = readBuilder_m h b
       \<and> read_m h2 r1 = read_m h1 r1
       \<and> Build_named (readBuilder_m h b) = (sql1, read_m h1 r1)"
proof -
  note s1 = Build_m_sound[OF assms(1,2)]
  have x1: "extends h h1" using s1 by simp
  have w1: "wfBuilder_m h1 b" using assms(1) x1 by (rule wfBuilder_m_extends)
  have rb1: "readBuilder_m h1 b = readBuilder_m h b" using assms(1) x1 by (rule readBuilder_m_extends)
  note s2 = Build_m_sound[OF w1 assms(3)]
  have x2: "extends h1 h2" using s2 by simp
  have x: "extends h h2" using x1 x2 by (rule extends_trans)
  have wa1: "wfRef h1 r1" using s1 by simp
  have keep1: "read_m h2 r1 = read_m h1 r1" using wa1 x2 by (rule read_m_extends)
  have rb2: "readBuilder_m h2 b = readBuilder_m h b" using assms(1) x by (rule readBuilder_m_extends)
  show ?thesis using s1 s2 rb1 rb2 x keep1 by simp
qed


section \<open>Builder objects\<close>

text \<open>
  Claim C8. For every builder (Select, Insert, Update or Delete in the positional variant,
  Select, Update or Delete in the named variant) whose argument slices or maps exist in
  the store, two calls of Build with no chain method called in between return the same SQL
  text and argument collections with the same content, which are those of Build on the
  builder read as a value. The two calls leave every array and every map that existed
  before them as it was, so the builder reads the same after them as before, and the
  second call leaves the arguments returned by the first intact; for the positional
  variant this holds whatever spare capacity \<open>append\<close> allocates in either call.
\<close>

theorem C8_Build_idempotent:
  assumes "wfBuilder h b"
    and "Build_s g1 h b = (h1, sql1, args1)"
    and "Build_s g2 h1 b = (h2, sql2, args2)"
    and "wfBuilder_m m nb"
    and "Build_m m nb = (m1, nsql1, nargs1)"
    and "Build_m m1 nb = (m2, nsql2, nargs2)"
  shows "(sql2 = sql1 \<and> elems h2 args2 = elems h1 args1
          \<and> extends h h2 \<and> readBuilder h2 b = readBuilder h b
          \<and> elems h2 args1 = elems h1 args1
          \<and> Build (readBuilder h b) = (sql1, elems h1 args1))
       \<and> (nsql2 = nsql1 \<and> read_m m2 nargs2 = read_m m1 nargs1
          \<and> extends m m2 \<and> readBuilder_m m2 nb = readBuilder_m m nb
          \<and> read_m m2 nargs1 = read_m m1 nargs1
          \<and> Build_named (readBuilder_m m nb) = (nsql1, read_m m1 nargs1))"
  using Build_s_twice[OF assms(1,2,3)] Build_m_twice[OF assms(4,5,6)] by (rule conjI)

theorem C8_Build_idempotent_witness:
  "wfBuilder [[VInt 42]]
        (SelectS (Limit 5 (Where [rawPred ''a = $1'' (Slice 0 1), eqPred ''c'' (VInt 7)]
           (From ''t'' (Select [''*''])))))
   \<and> Build_s (\<lambda>old need. need) [[VInt 42]]
        (SelectS (Limit 5 (Where [rawPred ''a = $1'' (Slice 0 1), eqPred ''c'' (VInt 7)]
           (From ''t'' (Select [''*''])))))
       = ([[VInt 42], [VInt 42, VInt 7], [VInt 7], [VInt 42, VInt 7, VInt 5, VNil, VNil, VNil]],
          ''SELECT * FROM t WHERE a = $1 AND c = $2 LIMIT $3'', Slice 3 3)
   \<and> Build_s (\<lambda>old need. 0)
        [[VInt 42], [VInt 42, VInt 7], [VInt 7], [VInt 42, VInt 7, VInt 5, VNil, VNil, VNil]]
        (SelectS (Limit 5 (Where [rawPred ''a = $1'' (Slice 0 1), eqPred ''c'' (VInt 7)]
           (From ''t'' (Select [''*''])))))
       = ([[VInt 42], [VInt 42, VInt 7], [VInt 7], [VInt 42, VInt 7, VInt 5, VNil, VNil, VNil],
           [VInt 42], [VInt 7], [VInt 42, VInt 7], [VInt 42, VInt 7, VInt 5]],
          ''SELECT * FROM t WHERE a = $1 AND c = $2 LIMIT $3'', Slice 7 3)
   \<and> wfBuilder_m [[''uid'' \<mapsto> VInt 42]]
        (SelectM (Limit 5 (Where [rawPredN ''a = @uid'' (MapAt 0), eqPredN ''c'' (VInt 7)]
           (From ''t'' (Select [''*''])))))
   \<and> Build_m [[''uid'' \<mapsto> VInt 42]]
        (SelectM (Limit 5 (Where [rawPredN ''a = @uid'' (MapAt 0), eqPredN ''c'' (VInt 7)]
           (From ''t'' (Select [''*''])))))
       = ([[''uid'' \<mapsto> VInt 42],
           [''uid'' \<mapsto> VInt 42, ''p1'' \<mapsto> VInt 7, ''p2'' \<mapsto> VInt 5],
           [''p1'' \<mapsto> VInt 7]],
          ''SELECT * FROM t WHERE a = @uid AND c = @p1 LIMIT @p2'', MapAt 1)
   \<and> Build_m [[''uid'' \<mapsto> VInt 42],
           [''uid'' \<mapsto> VInt 42, ''p1'' \<mapsto> VInt 7, ''p2'' \<mapsto> VInt 5],
           [''p1'' \<mapsto> VInt 7]]
        (SelectM (Limit 5 (Where [rawPredN ''a = @uid'' (MapAt 0), eqPredN ''c'' (VInt 7)]
           (From ''t'' (Select [''*''])))))
       = ([[''uid'' \<mapsto> VInt 42],
           [''uid'' \<mapsto> VInt 42, ''p1'' \<mapsto> VInt 7, ''p2'' \<mapsto> VInt 5],
           [''p1'' \<mapsto> VInt 7],
           [''uid'' \<mapsto> VInt 42, ''p1'' \<mapsto> VInt 7, ''p2'' \<mapsto> VInt 5],
           [''p1'' \<mapsto> VInt 7]],
          ''SELECT * FROM t WHERE a = @uid AND c = @p1 LIMIT @p2'', MapAt 3)
   \<and> elems [[VInt 42], [VInt 42, VInt 7], [VInt 7], [VInt 42, VInt 7, VInt 5, VNil, VNil, VNil],
           [VInt 42], [VInt 7], [VInt 42, VInt 7], [VInt 42, VInt 7, VInt 5]] (Slice 7 3)
       = elems [[VInt 42], [VInt 42, VInt 7], [VInt 7], [VInt 42, VInt 7, VInt 5, VNil, VNil, VNil]] (Slice 3 3)
   \<and> extends [[VInt 42]]
         [[VInt 42], [VInt 42, VInt 7], [VInt 7], [VInt 42, VInt 7, VInt 5, VNil, VNil, VNil],
           [VInt 42], [VInt 7], [VInt 42, VInt 7], [VInt 42, VInt 7, VInt 5]]
   \<and> read_m [[''uid'' \<mapsto> VInt 42],
           [''uid'' \<mapsto> VInt 42, ''p1'' \<mapsto> VInt 7, ''p2'' \<mapsto> VInt 5],
           [''p1'' \<mapsto> VInt 7],
           [''uid'' \<mapsto> VInt 42, ''p1'' \<mapsto> VInt 7, ''p2'' \<mapsto> VInt 5],
           [''p1'' \<mapsto> VInt 7]] (MapAt 3)
       = read_m [[''uid'' \<mapsto> VInt 42],
           [''uid'' \<mapsto> VInt 42, ''p1'' \<mapsto> VInt 7, ''p2'' \<mapsto> VInt 5],
           [''p1'' \<mapsto> VInt 7]] (MapAt 1)
   \<and> extends [[''uid'' \<mapsto> VInt 42]]
         [[''uid'' \<mapsto> VInt 42],
           [''uid'' \<mapsto> VInt 42, ''p1'' \<mapsto> VInt 7, ''p2'' \<mapsto> VInt 5],
           [''p1'' \<mapsto> VInt 7],
           [''uid'' \<mapsto> VInt 42, ''p1'' \<mapsto> VInt 7, ''p2'' \<mapsto> VInt 5],
           [''p1'' \<mapsto> VInt 7]]"
proof -
  have digits: "fmt_d 1 = ''1''" "fmt_d 2 = ''2''" "fmt_d 3 = ''3''"
    by (simp_all add: fmt_d_def showInt_def showNat.simps)
  have wf: "wfBuilder [[VInt 42]]
        (SelectS (Limit 5 (Where [rawPred ''a = $1'' (Slice 0 1), eqPred ''c'' (VInt 7)]
           (From ''t'' (Select [''*''])))))"
    by (simp add: wfBuilder_def wfSlice_def Limit_def Where_def From_def Select_def)
  have r1: "Build_s (\<lambda>old need. need) [[VInt 42]]
        (SelectS (Limit 5 (Where [rawPred ''a = $1'' (Slice 0 1), eqPred ''c'' (VInt 7)]
           (From ''t'' (Select [''*''])))))
       = ([[VInt 42], [VInt 42, VInt 7], [VInt 7], [VInt 42, VInt 7, VInt 5, VNil, VNil, VNil]],
          ''SELECT * FROM t WHERE a = $1 AND c = $2 LIMIT $3'', Slice 3 3)"
    by (simp add: SelectBuilder_Build_s_def Limit_def Where_def From_def Select_def Let_def
        writePredicates_s_def append_s_def cmp_s_def literal_def elems_def sliceLen_def
        ReplaceAllStringFunc_def placeholderRe_def rawRepl_def isDigit_def Atoi_def
        digits_val_def digit_val_def digits numeral_3_eq_3)
  have r2: "Build_s (\<lambda>old need. 0)
        [[VInt 42], [VInt 42, VInt 7], [VInt 7], [VInt 42, VInt 7, VInt 5, VNil, VNil, VNil]]
        (SelectS (Limit 5 (Where [rawPred ''a = $1'' (Slice 0 1), eqPred ''c'' (VInt 7)]
           (From ''t'' (Select [''*''])))))
       = ([[VInt 42], [VInt 42, VInt 7], [VInt 7], [VInt 42, VInt 7, VInt 5, VNil, VNil, VNil],
           [VInt 42], [VInt 7], [VInt 42, VInt 7], [VInt 42, VInt 7, VInt 5]],
          ''SELECT * FROM t WHERE a = $1 AND c = $2 LIMIT $3'', Slice 7 3)"
    by (simp add: SelectBuilder_Build_s_def Limit_def Where_def From_def Select_def Let_def
        writePredicates_s_def append_s_def cmp_s_def literal_def elems_def sliceLen_def
        ReplaceAllStringFunc_def placeholderRe_def rawRepl_def isDigit_def Atoi_def
        digits_val_def digit_val_def digits numeral_3_eq_3)
  have wfn: "wfBuilder_m [[''uid'' \<mapsto> VInt 42]]
        (SelectM (Limit 5 (Where [rawPredN ''a = @uid'' (MapAt 0), eqPredN ''c'' (VInt 7)]
           (From ''t'' (Select [''*''])))))"
    by (simp add: wfBuilder_m_def wfRef_def Limit_def Where_def From_def Select_def)
  have n1: "Build_m [[''uid'' \<mapsto> VInt 42]]
        (SelectM (Limit 5 (Where [rawPredN ''a = @uid'' (MapAt 0), eqPredN ''c'' (VInt 7)]
           (From ''t'' (Select [''*''])))))
       = ([[''uid'' \<mapsto> VInt 42],
           [''uid'' \<mapsto> VInt 42, ''p1'' \<mapsto> VInt 7, ''p2'' \<mapsto> VInt 5],
           [''p1'' \<mapsto> VInt 7]],
          ''SELECT * FROM t WHERE a = @uid AND c = @p1 LIMIT @p2'', MapAt 1)"
    by (simp add: SelectBuilder_Build_m_def Limit_def Where_def From_def Select_def Let_def
        writePredicates_m_def make_m_def literal_m_def store_m_def mergeArgs_m_def mergeArgs_def
        read_m_def cmpN_m_def nextParam_def digits)
  have n2: "Build_m [[''uid'' \<mapsto> VInt 42],
           [''uid'' \<mapsto> VInt 42, ''p1'' \<mapsto> VInt 7, ''p2'' \<mapsto> VInt 5],
           [''p1'' \<mapsto> VInt 7]]
        (SelectM (Limit 5 (Where [rawPredN ''a = @uid'' (MapAt 0), eqPredN ''c'' (VInt 7)]
           (From ''t'' (Select [''*''])))))
       = ([[''uid'' \<mapsto> VInt 42],
           [''uid'' \<mapsto> VInt 42, ''p1'' \<mapsto> VInt 7, ''p2'' \<mapsto> VInt 5],
           [''p1'' \<mapsto> VInt 7],
           [''uid'' \<mapsto> VInt 42, ''p1'' \<mapsto> VInt 7, ''p2'' \<mapsto> VInt 5],
           [''p1'' \<mapsto> VInt 7]],
          ''SELECT * FROM t WHERE a = @uid AND c = @p1 LIMIT @p2'', MapAt 3)"
    by (simp add: SelectBuilder_Build_m_def Limit_def Where_def From_def Select_def Let_def
        writePredicates_m_def make_m_def literal_m_def store_m_def mergeArgs_m_def mergeArgs_def
        read_m_def cmpN_m_def nextParam_def digits numeral_3_eq_3)
  show ?thesis
    using wf r1 r2 wfn n1 n2 C8_Build_idempotent[OF wf r1 r2 wfn n1 n2]
    by blast
qed

text \<open>
  Claim C10. Calling Where again (on a Select, Update or Delete builder of either variant)
  or Values again appends to what the earlier calls supplied, and the built statement has
  all of it, in call order: the WHERE clause is the renderings of the stored predicates
  followed by those of the first and of the second call, joined by AND and numbered in
  one run, and the VALUES clause has one parenthesised row for each stored row and for
  each call, with the values of all in the arguments. Calling Columns or Returning again
  replaces the earlier list: the statement is built with the columns of the last call and
  those of the earlier call appear nowhere in it. The renderings of a list of predicates
  are one for each predicate, those of an appended list after those of the list it is
  appended to, and the rows of VALUES are one for each row. The statement ends with the
  text and the arguments of seven concrete statements built with repeated calls.
\<close>

theorem C10_append_versus_replace:
  "s_where (Where ps2 (Where ps1 sb)) = s_where sb @ ps1 @ ps2
   \<and> u_where (UpdateBuilder_Where ps2 (UpdateBuilder_Where ps1 ub)) = u_where ub @ ps1 @ ps2
   \<and> d_where (DeleteBuilder_Where ps2 (DeleteBuilder_Where ps1 db)) = d_where db @ ps1 @ ps2
   \<and> i_values (Values row2 (Values row1 ib)) = i_values ib @ [row1, row2]
   \<and> i_columns (Columns cols2 (Columns cols1 ib)) = cols2
   \<and> i_returning (InsertBuilder_Returning cols2 (InsertBuilder_Returning cols1 ib)) = cols2
   \<and> u_returning (UpdateBuilder_Returning cols2 (UpdateBuilder_Returning cols1 ub)) = cols2
   \<and> d_returning (DeleteBuilder_Returning cols2 (DeleteBuilder_Returning cols1 db)) = cols2
   \<and> SelectBuilder_Build (Where ps2 (Where ps1 sb)) =
     (let W = renderChain (s_where sb @ ps1 @ ps2) 1; cW = chainEnd W 1;
          H = renderChain (s_having sb) cW; cH = chainEnd H cW;
          cL = (case s_limit sb of None \<Rightarrow> cH | Some n \<Rightarrow> cH + 1)
      in (selectHead sb @ clauseText '' WHERE '' W @ listText '' GROUP BY '' (s_groupBy sb)
            @ clauseText '' HAVING '' H @ orderByText sb
            @ (case s_limit sb of None \<Rightarrow> [] | Some n \<Rightarrow> '' LIMIT $'' @ fmt_d cH)
            @ (case s_offset sb of None \<Rightarrow> [] | Some n \<Rightarrow> '' OFFSET $'' @ fmt_d cL),
          chainArgs W @ chainArgs H
            @ (case s_limit sb of None \<Rightarrow> [] | Some n \<Rightarrow> [VInt (sint n)])
            @ (case s_offset sb of None \<Rightarrow> [] | Some n \<Rightarrow> [VInt (sint n)])))
   \<and> UpdateBuilder_Build (UpdateBuilder_Where ps2 (UpdateBuilder_Where ps1 ub)) =
     (let W = renderChain (u_where ub @ ps1 @ ps2) (1 + of_nat (length (u_sets ub)))
      in (''UPDATE '' @ u_table ub @ '' SET '' @ Join (setTexts 1 (u_sets ub)) '', ''
            @ clauseText '' WHERE '' W @ listText '' RETURNING '' (u_returning ub),
          map sc_val (u_sets ub) @ chainArgs W))
   \<and> DeleteBuilder_Build (DeleteBuilder_Where ps2 (DeleteBuilder_Where ps1 db)) =
     (let W = renderChain (d_where db @ ps1 @ ps2) 1
      in (''DELETE FROM '' @ d_table db @ clauseText '' WHERE '' W
            @ listText '' RETURNING '' (d_returning db),
          chainArgs W))
   \<and> SelectBuilder_Build_named (Where nps2 (Where nps1 nsb)) =
     (let W = renderChain_named (s_where nsb @ nps1 @ nps2) 0; cW = chainEnd W 0;
          H = renderChain_named (s_having nsb) cW; cH = chainEnd H cW;
          cL = (case s_limit nsb of None \<Rightarrow> cH | Some n \<Rightarrow> cH + 1);
          aH = chainArgs_named (chainArgs_named Map.empty W) H;
          aL = (case s_limit nsb of None \<Rightarrow> aH
                | Some n \<Rightarrow> aH(''p'' @ fmt_d (cH + 1) \<mapsto> VInt (sint n)))
      in (selectHead nsb @ clauseText '' WHERE '' W @ listText '' GROUP BY '' (s_groupBy nsb)
            @ clauseText '' HAVING '' H @ orderByText nsb
            @ (case s_limit nsb of None \<Rightarrow> [] | Some n \<Rightarrow> '' LIMIT @p'' @ fmt_d (cH + 1))
            @ (case s_offset nsb of None \<Rightarrow> [] | Some n \<Rightarrow> '' OFFSET @p'' @ fmt_d (cL + 1)),
          case s_offset nsb of None \<Rightarrow> aL
          | Some n \<Rightarrow> aL(''p'' @ fmt_d (cL + 1) \<mapsto> VInt (sint n))))
   \<and> UpdateBuilder_Build_named (UpdateBuilder_Where nps2 (UpdateBuilder_Where nps1 nub)) =
     (let W = renderChain_named (u_where nub @ nps1 @ nps2) (of_nat (length (u_sets nub)))
      in (''UPDATE '' @ u_table nub @ '' SET '' @ Join (setTexts_named 0 (u_sets nub)) '', ''
            @ clauseText '' WHERE '' W @ listText '' RETURNING '' (u_returning nub),
          chainArgs_named (setArgs_named 0 (u_sets nub) Map.empty) W))
   \<and> DeleteBuilder_Build_named (DeleteBuilder_Where nps2 (DeleteBuilder_Where nps1 ndb)) =
     (let W = renderChain_named (d_where ndb @ nps1 @ nps2) 0
      in (''DELETE FROM '' @ d_table ndb @ clauseText '' WHERE '' W
            @ listText '' RETURNING '' (d_returning ndb),
          chainArgs_named Map.empty W))
   \<and> InsertBuilder_Build (Values row2 (Values row1 ib)) =
     (''INSERT INTO '' @ i_table ib
        @ (if i_columns ib = [] then [] else '' ('' @ Join (i_columns ib) '', '' @ '')'')
        @ '' VALUES '' @ Join (rowTexts 1 (i_values ib @ [row1, row2])) '', ''
        @ (if i_onConflict ib = [] then [] else '' ON CONFLICT '' @ i_onConflict ib)
        @ listText '' RETURNING '' (i_returning ib),
      concat (i_values ib @ [row1, row2]))
   \<and> InsertBuilder_Build (Columns cols2 (Columns cols1 ib)) =
     (''INSERT INTO '' @ i_table ib
        @ (if cols2 = [] then [] else '' ('' @ Join (cols2) '', '' @ '')'')
        @ '' VALUES '' @ Join (rowTexts 1 (i_values ib)) '', ''
        @ (if i_onConflict ib = [] then [] else '' ON CONFLICT '' @ i_onConflict ib)
        @ listText '' RETURNING '' (i_returning ib),
      concat (i_values ib))
   \<and> InsertBuilder_Build (InsertBuilder_Returning cols2 (InsertBuilder_Returning cols1 ib)) =
     (''INSERT INTO '' @ i_table ib
        @ (if i_columns ib = [] then [] else '' ('' @ Join (i_columns ib) '', '' @ '')'')
        @ '' VALUES '' @ Join (rowTexts 1 (i_values ib)) '', ''
        @ (if i_onConflict ib = [] then [] else '' ON CONFLICT '' @ i_onConflict ib)
        @ listText '' RETURNING '' (cols2),
      concat (i_values ib))
   \<and> UpdateBuilder_Build (UpdateBuilder_Returning cols2 (UpdateBuilder_Returning cols1 ub)) =
     (let W = renderChain (u_where ub) (1 + of_nat (length (u_sets ub)))
      in (''UPDATE '' @ u_table ub @ '' SET '' @ Join (setTexts 1 (u_sets ub)) '', ''
            @ clauseText '' WHERE '' W @ listText '' RETURNING '' (cols2),
          map sc_val (u_sets ub) @ chainArgs W))
   \<and> DeleteBuilder_Build (DeleteBuilder_Returning cols2 (DeleteBuilder_Returning cols1 db)) =
     (let W = renderChain (d_where db) 1
      in (''DELETE FROM '' @ d_table db @ clauseText '' WHERE '' W
            @ listText '' RETURNING '' (cols2),
          chainArgs W))
   \<and> UpdateBuilder_Build_named (UpdateBuilder_Returning cols2 (UpdateBuilder_Returning cols1 nub)) =
     (let W = renderChain_named (u_where nub) (of_nat (length (u_sets nub)))
      in (''UPDATE '' @ u_table nub @ '' SET '' @ Join (setTexts_named 0 (u_sets nub)) '', ''
            @ clauseText '' WHERE '' W @ listText '' RETURNING '' (cols2),
          chainArgs_named (setArgs_named 0 (u_sets nub) Map.empty) W))
   \<and> DeleteBuilder_Build_named (DeleteBuilder_Returning cols2 (DeleteBuilder_Returning cols1 ndb)) =
     (let W = renderChain_named (d_where ndb) 0
      in (''DELETE FROM '' @ d_table ndb @ clauseText '' WHERE '' W
            @ listText '' RETURNING '' (cols2),
          chainArgs_named Map.empty W))
   \<and> renderChain (qs1 @ qs2) c
       = renderChain qs1 c @ renderChain qs2 (chainEnd (renderChain qs1 c) c)
   \<and> renderChain_named (nqs1 @ nqs2) c
       = renderChain_named nqs1 c
           @ renderChain_named nqs2 (chainEnd (renderChain_named nqs1 c) c)
   \<and> length (renderChain qs c) = length qs
   \<and> length (renderChain_named nqs c) = length nqs
   \<and> length (rowTexts c rows) = length rows
   \<and> SelectBuilder_Build
     (Where [eqPred ''b'' (VInt 2)] (Where [eqPred ''a'' (VInt 1)] (From ''t'' (Select [''*'']))))
     = (''SELECT * FROM t WHERE a = $1 AND b = $2'', [VInt 1, VInt 2])
   \<and> InsertBuilder_Build
     (Values [VInt 3, VInt 4] (Values [VInt 1, VInt 2]
        (Columns [''c'', ''d''] (Columns [''a'', ''b''] (InsertInto ''t'')))))
     = (''INSERT INTO t (c, d) VALUES ($1, $2), ($3, $4)'', [VInt 1, VInt 2, VInt 3, VInt 4])
   \<and> UpdateBuilder_Build
     (UpdateBuilder_Returning [''id''] (UpdateBuilder_Returning [''x'', ''y'']
        (UpdateBuilder_Where [eqPred ''b'' (VInt 3)] (UpdateBuilder_Where [eqPred ''a'' (VInt 2)]
           (Set ''n'' (VInt 1) (Update ''t''))))))
     = (''UPDATE t SET n = $1 WHERE a = $2 AND b = $3 RETURNING id'', [VInt 1, VInt 2, VInt 3])
   \<and> DeleteBuilder_Build
     (DeleteBuilder_Returning [''id''] (DeleteBuilder_Returning [''x'', ''y'']
        (DeleteBuilder_Where [eqPred ''a'' (VInt 1)] (DeleteFrom ''t''))))
     = (''DELETE FROM t WHERE a = $1 RETURNING id'', [VInt 1])
   \<and> SelectBuilder_Build_named
     (Where [eqPredN ''b'' (VInt 2)] (Where [eqPredN ''a'' (VInt 1)] (From ''t'' (Select [''*'']))))
     = (''SELECT * FROM t WHERE a = @p1 AND b = @p2'', [''p1'' \<mapsto> VInt 1, ''p2'' \<mapsto> VInt 2])
   \<and> UpdateBuilder_Build_named
     (UpdateBuilder_Returning [''id''] (UpdateBuilder_Returning [''x'', ''y'']
        (UpdateBuilder_Where [eqPredN ''b'' (VInt 3)] (UpdateBuilder_Where [eqPredN ''a'' (VInt 2)]
           (Set ''n'' (VInt 1) (Update ''t''))))))
     = (''UPDATE t SET n = @p1 WHERE a = @p2 AND b = @p3 RETURNING id'',
        [''p1'' \<mapsto> VInt 1, ''p2'' \<mapsto> VInt 2, ''p3'' \<mapsto> VInt 3])
   \<and> DeleteBuilder_Build_named
     (DeleteBuilder_Returning [''id''] (DeleteBuilder_Returning [''x'', ''y'']
        (DeleteBuilder_Where [eqPredN ''b'' (VInt 2)]
           (DeleteBuilder_Where [eqPredN ''a'' (VInt 1)] (DeleteFrom ''t'')))))
     = (''DELETE FROM t WHERE a = @p1 AND b = @p2 RETURNING id'',
        [''p1'' \<mapsto> VInt 1, ''p2'' \<mapsto> VInt 2])"
proof -
  have F: "s_where (Where ps2 (Where ps1 sb)) = s_where sb @ ps1 @ ps2
     \<and> u_where (UpdateBuilder_Where ps2 (UpdateBuilder_Where ps1 ub)) = u_where ub @ ps1 @ ps2
     \<and> d_where (DeleteBuilder_Where ps2 (DeleteBuilder_Where ps1 db)) = d_where db @ ps1 @ ps2
     \<and> i_values (Values row2 (Values row1 ib)) = i_values ib @ [row1, row2]
     \<and> i_columns (Columns cols2 (Columns cols1 ib)) = cols2
     \<and> i_returning (InsertBuilder_Returning cols2 (InsertBuilder_Returning cols1 ib)) = cols2
     \<and> u_returning (UpdateBuilder_Returning cols2 (UpdateBuilder_Returning cols1 ub)) = cols2
     \<and> d_returning (DeleteBuilder_Returning cols2 (DeleteBuilder_Returning cols1 db)) = cols2"
    by (simp add: Where_def UpdateBuilder_Where_def DeleteBuilder_Where_def Values_def Columns_def
        InsertBuilder_Returning_def UpdateBuilder_Returning_def DeleteBuilder_Returning_def)
  have S: "SelectBuilder_Build (Where ps2 (Where ps1 sb)) =
       (let W = renderChain (s_where sb @ ps1 @ ps2) 1; cW = chainEnd W 1;
            H = renderChain (s_having sb) cW; cH = chainEnd H cW;
            cL = (case s_limit sb of None \<Rightarrow> cH | Some n \<Rightarrow> cH + 1)
        in (selectHead sb @ clauseText '' WHERE '' W @ listText '' GROUP BY '' (s_groupBy sb)
              @ clauseText '' HAVING '' H @ orderByText sb
              @ (case s_limit sb of None \<Rightarrow> [] | Some n \<Rightarrow> '' LIMIT $'' @ fmt_d cH)
              @ (case s_offset sb of None \<Rightarrow> [] | Some n \<Rightarrow> '' OFFSET $'' @ fmt_d cL),
            chainArgs W @ chainArgs H
              @ (case s_limit sb of None \<Rightarrow> [] | Some n \<Rightarrow> [VInt (sint n)])
              @ (case s_offset sb of None \<Rightarrow> [] | Some n \<Rightarrow> [VInt (sint n)])))"
    unfolding SelectBuilder_Build_closed
    by (simp add: Where_def selectHead_def orderByText_def Let_def)
  have U: "UpdateBuilder_Build (UpdateBuilder_Where ps2 (UpdateBuilder_Where ps1 ub)) =
       (let W = renderChain (u_where ub @ ps1 @ ps2) (1 + of_nat (length (u_sets ub)))
        in (''UPDATE '' @ u_table ub @ '' SET '' @ Join (setTexts 1 (u_sets ub)) '', ''
              @ clauseText '' WHERE '' W @ listText '' RETURNING '' (u_returning ub),
            map sc_val (u_sets ub) @ chainArgs W))"
    unfolding UpdateBuilder_Build_closed by (simp add: UpdateBuilder_Where_def Let_def)
  have D: "DeleteBuilder_Build (DeleteBuilder_Where ps2 (DeleteBuilder_Where ps1 db)) =
       (let W = renderChain (d_where db @ ps1 @ ps2) 1
        in (''DELETE FROM '' @ d_table db @ clauseText '' WHERE '' W
              @ listText '' RETURNING '' (d_returning db),
            chainArgs W))"
    unfolding DeleteBuilder_Build_closed by (simp add: DeleteBuilder_Where_def Let_def)
  have SN: "SelectBuilder_Build_named (Where nps2 (Where nps1 nsb)) =
       (let W = renderChain_named (s_where nsb @ nps1 @ nps2) 0; cW = chainEnd W 0;
            H = renderChain_named (s_having nsb) cW; cH = chainEnd H cW;
            cL = (case s_limit nsb of None \<Rightarrow> cH | Some n \<Rightarrow> cH + 1);
            aH = chainArgs_named (chainArgs_named Map.empty W) H;
            aL = (case s_limit nsb of None \<Rightarrow> aH
                  | Some n \<Rightarrow> aH(''p'' @ fmt_d (cH + 1) \<mapsto> VInt (sint n)))
        in (selectHead nsb @ clauseText '' WHERE '' W @ listText '' GROUP BY '' (s_groupBy nsb)
              @ clauseText '' HAVING '' H @ orderByText nsb
              @ (case s_limit nsb of None \<Rightarrow> [] | Some n \<Rightarrow> '' LIMIT @p'' @ fmt_d (cH + 1))
              @ (case s_offset nsb of None \<Rightarrow> [] | Some n \<Rightarrow> '' OFFSET @p'' @ fmt_d (cL + 1)),
            case s_offset nsb of None \<Rightarrow> aL
            | Some n \<Rightarrow> aL(''p'' @ fmt_d (cL + 1) \<mapsto> VInt (sint n))))"
    unfolding SelectBuilder_Build_named_closed
    by (simp add: Where_def selectHead_def orderByText_def Let_def)
  have UN: "UpdateBuilder_Build_named (UpdateBuilder_Where nps2 (UpdateBuilder_Where nps1 nub)) =
       (let W = renderChain_named (u_where nub @ nps1 @ nps2) (of_nat (length (u_sets nub)))
        in (''UPDATE '' @ u_table nub @ '' SET '' @ Join (setTexts_named 0 (u_sets nub)) '', ''
              @ clauseText '' WHERE '' W @ listText '' RETURNING '' (u_returning nub),
            chainArgs_named (setArgs_named 0 (u_sets nub) Map.empty) W))"
    unfolding UpdateBuilder_Build_named_closed by (simp add: UpdateBuilder_Where_def Let_def)
  have DN: "DeleteBuilder_Build_named (DeleteBuilder_Where nps2 (DeleteBuilder_Where nps1 ndb)) =
       (let W = renderChain_named (d_where ndb @ nps1 @ nps2) 0
        in (''DELETE FROM '' @ d_table ndb @ clauseText '' WHERE '' W
              @ listText '' RETURNING '' (d_returning ndb),
            chainArgs_named Map.empty W))"
    unfolding DeleteBuilder_Build_named_closed by (simp add: DeleteBuilder_Where_def Let_def)
  have V: "InsertBuilder_Build (Values row2 (Values row1 ib)) =
       (''INSERT INTO '' @ i_table ib
          @ (if i_columns ib = [] then [] else '' ('' @ Join (i_columns ib) '', '' @ '')'')
          @ '' VALUES '' @ Join (rowTexts 1 (i_values ib @ [row1, row2])) '', ''
          @ (if i_onConflict ib = [] then [] else '' ON CONFLICT '' @ i_onConflict ib)
          @ listText '' RETURNING '' (i_returning ib),
        concat (i_values ib @ [row1, row2]))"
    unfolding InsertBuilder_Build_closed by (simp add: Values_def insertTail_def)
  have C: "InsertBuilder_Build (Columns cols2 (Columns cols1 ib)) =
       (''INSERT INTO '' @ i_table ib
          @ (if cols2 = [] then [] else '' ('' @ Join (cols2) '', '' @ '')'')
          @ '' VALUES '' @ Join (rowTexts 1 (i_values ib)) '', ''
          @ (if i_onConflict ib = [] then [] else '' ON CONFLICT '' @ i_onConflict ib)
          @ listText '' RETURNING '' (i_returning ib),
        concat (i_values ib))"
    unfolding InsertBuilder_Build_closed by (simp add: Columns_def insertTail_def)
  have RI: "InsertBuilder_Build (InsertBuilder_Returning cols2 (InsertBuilder_Returning cols1 ib)) =
       (''INSERT INTO '' @ i_table ib
          @ (if i_columns ib = [] then [] else '' ('' @ Join (i_columns ib) '', '' @ '')'')
          @ '' VALUES '' @ Join (rowTexts 1 (i_values ib)) '', ''
          @ (if i_onConflict ib = [] then [] else '' ON CONFLICT '' @ i_onConflict ib)
          @ listText '' RETURNING '' (cols2),
        concat (i_values ib))"
    unfolding InsertBuilder_Build_closed by (simp add: InsertBuilder_Returning_def insertTail_def)
  have RU: "UpdateBuilder_Build (UpdateBuilder_Returning cols2 (UpdateBuilder_Returning cols1 ub)) =
       (let W = renderChain (u_where ub) (1 + of_nat (length (u_sets ub)))
        in (''UPDATE '' @ u_table ub @ '' SET '' @ Join (setTexts 1 (u_sets ub)) '', ''
              @ clauseText '' WHERE '' W @ listText '' RETURNING '' (cols2),
            map sc_val (u_sets ub) @ chainArgs W))"
    unfolding UpdateBuilder_Build_closed by (simp add: UpdateBuilder_Returning_def Let_def)
  have RD: "DeleteBuilder_Build (DeleteBuilder_Returning cols2 (DeleteBuilder_Returning cols1 db)) =
       (let W = renderChain (d_where db) 1
        in (''DELETE FROM '' @ d_table db @ clauseText '' WHERE '' W
              @ listText '' RETURNING '' (cols2),
            chainArgs W))"
    unfolding DeleteBuilder_Build_closed by (simp add: DeleteBuilder_Returning_def Let_def)
  have RUN: "UpdateBuilder_Build_named (UpdateBuilder_Returning cols2 (UpdateBuilder_Returning cols1 nub)) =
       (let W = renderChain_named (u_where nub) (of_nat (length (u_sets nub)))
        in (''UPDATE '' @ u_table nub @ '' SET '' @ Join (setTexts_named 0 (u_sets nub)) '', ''
              @ clauseText '' WHERE '' W @ listText '' RETURNING '' (cols2),
            chainArgs_named (setArgs_named 0 (u_sets nub) Map.empty) W))"
    unfolding UpdateBuilder_Build_named_closed by (simp add: UpdateBuilder_Returning_def Let_def)
  have RDN: "DeleteBuilder_Build_named (DeleteBuilder_Returning cols2 (DeleteBuilder_Returning cols1 ndb)) =
       (let W = renderChain_named (d_where ndb) 0
        in (''DELETE FROM '' @ d_table ndb @ clauseText '' WHERE '' W
              @ listText '' RETURNING '' (cols2),
            chainArgs_named Map.empty W))"
    unfolding DeleteBuilder_Build_named_closed by (simp add: DeleteBuilder_Returning_def Let_def)
  have A1: "renderChain (qs1 @ qs2) c
         = renderChain qs1 c @ renderChain qs2 (chainEnd (renderChain qs1 c) c)"
    by (rule renderChain_append)
  have A2: "renderChain_named (nqs1 @ nqs2) c
         = renderChain_named nqs1 c
             @ renderChain_named nqs2 (chainEnd (renderChain_named nqs1 c) c)"
    by (rule renderChain_named_append)
  have A3: "length (renderChain qs c) = length qs"
    by (rule renderChain_length)
  have A4: "length (renderChain_named nqs c) = length nqs"
    by (rule renderChain_named_length)
  have A5: "length (rowTexts c rows) = length rows"
    by (rule rowTexts_length)
  have E1: "SelectBuilder_Build
       (Where [eqPred ''b'' (VInt 2)] (Where [eqPred ''a'' (VInt 1)] (From ''t'' (Select [''*'']))))
       = (''SELECT * FROM t WHERE a = $1 AND b = $2'', [VInt 1, VInt 2])"
    by (simp add: SelectBuilder_Build_def InsertBuilder_Build_def UpdateBuilder_Build_def
        DeleteBuilder_Build_def SelectBuilder_Build_named_def UpdateBuilder_Build_named_def
        DeleteBuilder_Build_named_def Where_def From_def Select_def Values_def Columns_def
        InsertInto_def UpdateBuilder_Returning_def UpdateBuilder_Where_def Set_def Update_def
        DeleteBuilder_Returning_def DeleteBuilder_Where_def DeleteFrom_def
        writePredicates_def writePredicates_named_def cmpN_def nextParam_def mergeArgs_def
        fmt_d_def showInt_def showNat.simps)
  have E2: "InsertBuilder_Build
       (Values [VInt 3, VInt 4] (Values [VInt 1, VInt 2]
          (Columns [''c'', ''d''] (Columns [''a'', ''b''] (InsertInto ''t'')))))
       = (''INSERT INTO t (c, d) VALUES ($1, $2), ($3, $4)'', [VInt 1, VInt 2, VInt 3, VInt 4])"
    by (simp add: SelectBuilder_Build_def InsertBuilder_Build_def UpdateBuilder_Build_def
        DeleteBuilder_Build_def SelectBuilder_Build_named_def UpdateBuilder_Build_named_def
        DeleteBuilder_Build_named_def Where_def From_def Select_def Values_def Columns_def
        InsertInto_def UpdateBuilder_Returning_def UpdateBuilder_Where_def Set_def Update_def
        DeleteBuilder_Returning_def DeleteBuilder_Where_def DeleteFrom_def
        writePredicates_def writePredicates_named_def cmpN_def nextParam_def mergeArgs_def
        fmt_d_def showInt_def showNat.simps)
  have E3: "UpdateBuilder_Build
       (UpdateBuilder_Returning [''id''] (UpdateBuilder_Returning [''x'', ''y'']
          (UpdateBuilder_Where [eqPred ''b'' (VInt 3)] (UpdateBuilder_Where [eqPred ''a'' (VInt 2)]
             (Set ''n'' (VInt 1) (Update ''t''))))))
       = (''UPDATE t SET n = $1 WHERE a = $2 AND b = $3 RETURNING id'', [VInt 1, VInt 2, VInt 3])"
    by (simp add: SelectBuilder_Build_def InsertBuilder_Build_def UpdateBuilder_Build_def
        DeleteBuilder_Build_def SelectBuilder_Build_named_def UpdateBuilder_Build_named_def
        DeleteBuilder_Build_named_def Where_def From_def Select_def Values_def Columns_def
        InsertInto_def UpdateBuilder_Returning_def UpdateBuilder_Where_def Set_def Update_def
        DeleteBuilder_Returning_def DeleteBuilder_Where_def DeleteFrom_def
        writePredicates_def writePredicates_named_def cmpN_def nextParam_def mergeArgs_def
        fmt_d_def showInt_def showNat.simps)
  have E4: "DeleteBuilder_Build
       (DeleteBuilder_Returning [''id''] (DeleteBuilder_Returning [''x'', ''y'']
          (DeleteBuilder_Where [eqPred ''a'' (VInt 1)] (DeleteFrom ''t''))))
       = (''DELETE FROM t WHERE a = $1 RETURNING id'', [VInt 1])"
    by (simp add: SelectBuilder_Build_def InsertBuilder_Build_def UpdateBuilder_Build_def
        DeleteBuilder_Build_def SelectBuilder_Build_named_def UpdateBuilder_Build_named_def
        DeleteBuilder_Build_named_def Where_def From_def Select_def Values_def Columns_def
        InsertInto_def UpdateBuilder_Returning_def UpdateBuilder_Where_def Set_def Update_def
        DeleteBuilder_Returning_def DeleteBuilder_Where_def DeleteFrom_def
        writePredicates_def writePredicates_named_def cmpN_def nextParam_def mergeArgs_def
        fmt_d_def showInt_def showNat.simps)
  have E5: "SelectBuilder_Build_named
       (Where [eqPredN ''b'' (VInt 2)] (Where [eqPredN ''a'' (VInt 1)] (From ''t'' (Select [''*'']))))
       = (''SELECT * FROM t WHERE a = @p1 AND b = @p2'', [''p1'' \<mapsto> VInt 1, ''p2'' \<mapsto> VInt 2])"
    by (simp add: SelectBuilder_Build_def InsertBuilder_Build_def UpdateBuilder_Build_def
        DeleteBuilder_Build_def SelectBuilder_Build_named_def UpdateBuilder_Build_named_def
        DeleteBuilder_Build_named_def Where_def From_def Select_def Values_def Columns_def
        InsertInto_def UpdateBuilder_Returning_def UpdateBuilder_Where_def Set_def Update_def
        DeleteBuilder_Returning_def DeleteBuilder_Where_def DeleteFrom_def
        writePredicates_def writePredicates_named_def cmpN_def nextParam_def mergeArgs_def
        fmt_d_def showInt_def showNat.simps)
  have E6: "UpdateBuilder_Build_named
       (UpdateBuilder_Returning [''id''] (UpdateBuilder_Returning [''x'', ''y'']
          (UpdateBuilder_Where [eqPredN ''b'' (VInt 3)] (UpdateBuilder_Where [eqPredN ''a'' (VInt 2)]
             (Set ''n'' (VInt 1) (Update ''t''))))))
       = (''UPDATE t SET n = @p1 WHERE a = @p2 AND b = @p3 RETURNING id'',
          [''p1'' \<mapsto> VInt 1, ''p2'' \<mapsto> VInt 2, ''p3'' \<mapsto> VInt 3])"
    by (simp add: SelectBuilder_Build_def InsertBuilder_Build_def UpdateBuilder_Build_def
        DeleteBuilder_Build_def SelectBuilder_Build_named_def UpdateBuilder_Build_named_def
        DeleteBuilder_Build_named_def Where_def From_def Select_def Values_def Columns_def
        InsertInto_def UpdateBuilder_Returning_def UpdateBuilder_Where_def Set_def Update_def
        DeleteBuilder_Returning_def DeleteBuilder_Where_def DeleteFrom_def
        writePredicates_def writePredicates_named_def cmpN_def nextParam_def mergeArgs_def
        fmt_d_def showInt_def showNat.simps)
  have E7: "DeleteBuilder_Build_named
       (DeleteBuilder_Returning [''id''] (DeleteBuilder_Returning [''x'', ''y'']
          (DeleteBuilder_Where [eqPredN ''b'' (VInt 2)]
             (DeleteBuilder_Where [eqPredN ''a'' (VInt 1)] (DeleteFrom ''t'')))))
       = (''DELETE FROM t WHERE a = @p1 AND b = @p2 RETURNING id'',
          [''p1'' \<mapsto> VInt 1, ''p2'' \<mapsto> VInt 2])"
    by (simp add: SelectBuilder_Build_def InsertBuilder_Build_def UpdateBuilder_Build_def
        DeleteBuilder_Build_def SelectBuilder_Build_named_def UpdateBuilder_Build_named_def
        DeleteBuilder_Build_named_def Where_def From_def Select_def Values_def Columns_def
        InsertInto_def UpdateBuilder_Returning_def UpdateBuilder_Where_def Set_def Update_def
        DeleteBuilder_Returning_def DeleteBuilder_Where_def DeleteFrom_def
        writePredicates_def writePredicates_named_def cmpN_def nextParam_def mergeArgs_def
        fmt_d_def showInt_def showNat.simps)
  note B = S U D SN UN DN V C RI RU RD RUN RDN A1 A2 A3 A4 A5 E1 E2 E3 E4 E5 E6 E7
  show ?thesis
    using F B by (simp only: simp_thms)
qed

section \<open>Debug inlining\<close>

lemma ReplaceAll_quote:
  "ReplaceAll s [quote] [quote, quote] = concat (map (\<lambda>c. if c = quote then [quote, quote] else [c]) s)"
  by (induction s) simp_all

lemma formatValue_string:
  "formatValue (VStr s)
     = [quote] @ concat (map (\<lambda>c. if c = quote then [quote, quote] else [c]) s) @ [quote]"
  by (simp add: ReplaceAll_quote)

lemma inliner_quotes_example:
  "ToSQL_debug (SelectB (Where [eqPred ''name'' (VStr (''O'' @ [quote] @ ''Brien''))]
                   (From ''t'' (Select [''*'']))))
     = ''SELECT * FROM t WHERE name = '' @ [quote] @ ''O'' @ [quote, quote] @ ''Brien'' @ [quote]"
  "ToSQL_debug_named (SelectBN (Where [eqPredN ''name'' (VStr (''O'' @ [quote] @ ''Brien''))]
                   (From ''t'' (Select [''*'']))))
     = ''SELECT * FROM t WHERE name = '' @ [quote] @ ''O'' @ [quote, quote] @ ''Brien'' @ [quote]"
  by (simp_all add: ToSQL_debug_def ToSQL_debug_named_def SelectBuilder_Build_def
      SelectBuilder_Build_named_def Where_def From_def Select_def writePredicates_def
      writePredicates_named_def cmpN_def nextParam_def mergeArgs_def ReplaceAllStringFunc_def
      debugParamRe_def debugRepl_def isWord_def quote_def fmt_d_def showInt_def showNat.simps)

lemma named_inliner_reused_name:
  "ToSQL_debug_named (SelectBN (Where [rawPredN ''(a = @id OR b = @id)'' [''id'' \<mapsto> VInt 42]]
                   (From ''t'' (Select [''*'']))))
     = ''SELECT * FROM t WHERE (a = 42 OR b = 42)''"
  by (simp add: ToSQL_debug_named_def SelectBuilder_Build_named_def Where_def From_def Select_def
      writePredicates_named_def mergeArgs_def ReplaceAllStringFunc_def debugParamRe_def
      debugRepl_def isWord_def showInt_def showNat.simps)

text \<open>
  Claim C7 at the failing input. A positional statement whose Raw predicate uses the marker
  \<open>$1\<close> twice is built with both occurrences in the text and one bound value; the
  positional debug inliner replaces only the first occurrence of each placeholder and
  returns a text in which the second \<open>$1\<close> is still a placeholder. (The named inliner
  replaces both occurrences: \<open>named_inliner_reused_name\<close>.)
\<close>

theorem C7_positional_inliner_keeps_reused_marker:
  "Build (SelectB (Where [rawPred ''(a = $1 OR b = $1)'' [VInt 42]] (From ''t'' (Select [''*'']))))
     = (''SELECT * FROM t WHERE (a = $1 OR b = $1)'', [VInt 42])
   \<and> ToSQL_debug (SelectB (Where [rawPred ''(a = $1 OR b = $1)'' [VInt 42]]
                        (From ''t'' (Select [''*'']))))
     = ''SELECT * FROM t WHERE (a = 42 OR b = $1)''"
  by (simp add: ToSQL_debug_def SelectBuilder_Build_def Where_def From_def Select_def
      writePredicates_def ReplaceAllStringFunc_def placeholderRe_def rawRepl_def isDigit_def
      Atoi_def digits_val_def digit_val_def fmt_d_def showInt_def showNat.simps)

section \<open>Named to positional conversion\<close>

lemma firstsFrom_extends: "\<exists>e. firstsFrom acc xs = acc @ e"
proof (induction xs arbitrary: acc)
  case Nil
  then show ?case by simp
next
  case (Cons x xs)
  obtain e where "firstsFrom (if x \<in> set acc then acc else acc @ [x]) xs
                    = (if x \<in> set acc then acc else acc @ [x]) @ e"
    using Cons.IH by blast
  then show ?case by (cases "x \<in> set acc") auto
qed

lemma firstsFrom_set: "set (firstsFrom acc xs) = set acc \<union> set xs"
  by (induction xs arbitrary: acc) auto

lemma firstsFrom_distinct: "distinct acc \<Longrightarrow> distinct (firstsFrom acc xs)"
  by (induction xs arbitrary: acc) auto

lemma firstOccurrences_set: "set (firstOccurrences xs) = set xs"
  by (simp add: firstOccurrences_def firstsFrom_set)

lemma firstOccurrences_distinct: "distinct (firstOccurrences xs)"
  by (simp add: firstOccurrences_def firstsFrom_distinct)

lemma firstOccurrences_length: "length (firstOccurrences xs) = card (set xs)"
  using distinct_card[OF firstOccurrences_distinct, of xs] by (simp add: firstOccurrences_set)

lemma segName_Lit: "segName (Lit c) = []"
  by (simp add: segName_def)

lemma segName_Match: "segName (Match m) = [drop 1 m]"
  by (simp add: segName_def)

lemma positionOf_append_mem: "x \<in> set acc \<Longrightarrow> positionOf (acc @ e) x = positionOf acc x"
  by (induction acc) (auto simp: positionOf_def)

lemma positionOf_append_new: "x \<notin> set acc \<Longrightarrow> positionOf (acc @ x # e) x = Suc (length acc)"
  by (induction acc) (auto simp: positionOf_def)

lemma takeWhile_neq_less: "x \<in> set ds \<Longrightarrow> length (takeWhile (\<lambda>y. y \<noteq> x) ds) < length ds"
  by (induction ds) auto

lemma positionOf_nth:
  assumes "x \<in> set ds"
  shows "positionOf ds x - 1 < length ds \<and> ds ! (positionOf ds x - 1) = x"
proof -
  have l: "length (takeWhile (\<lambda>y. y \<noteq> x) ds) < length ds"
    using assms by (rule takeWhile_neq_less)
  from nth_length_takeWhile[OF l] l show ?thesis by (simp add: positionOf_def)
qed

lemma seenOf_new:
  "name \<notin> set acc \<Longrightarrow>
     (seenOf acc)(name \<mapsto> of_nat (length acc) + 1) = seenOf (acc @ [name])"
  by (rule ext) (auto simp: seenOf_def positionOf_append_mem positionOf_append_new)

lemma n2p_scan:
  "D = firstsFrom acc (concat (map segName segs)) @ ext \<Longrightarrow>
   replaceSegs (n2pRepl named) segs (seenOf acc, map (lookupArg named) acc, of_nat (length acc))
     = (fst (replaceSegs (positionRepl D) segs ()),
        (seenOf (firstsFrom acc (concat (map segName segs))),
         map (lookupArg named) (firstsFrom acc (concat (map segName segs))),
         of_nat (length (firstsFrom acc (concat (map segName segs))))))"
proof (induction segs arbitrary: acc)
  case Nil
  then show ?case by simp
next
  case (Cons s segs)
  show ?case
  proof (cases s)
    case (Lit c)
    with Cons.prems have D: "D = firstsFrom acc (concat (map segName segs)) @ ext"
      by (simp add: segName_Lit)
    show ?thesis
      using Cons.IH[OF D] Lit by (simp add: segName_Lit case_prod_unfold)
  next
    case (Match m)
    let ?name = "drop 1 m"
    let ?acc' = "if ?name \<in> set acc then acc else acc @ [?name]"
    from Cons.prems Match have D: "D = firstsFrom ?acc' (concat (map segName segs)) @ ext"
      by (simp add: segName_Match)
    obtain e where e: "firstsFrom ?acc' (concat (map segName segs)) = ?acc' @ e"
      using firstsFrom_extends by blast
    show ?thesis
    proof (cases "?name \<in> set acc")
      case True
      then have pos: "positionOf D ?name = positionOf acc ?name"
        using D e by (simp add: positionOf_append_mem)
      have step: "n2pRepl named m (seenOf acc, map (lookupArg named) acc, of_nat (length acc))
                    = (''$'' @ fmt_d (of_nat (positionOf acc ?name)),
                       (seenOf acc, map (lookupArg named) acc, of_nat (length acc)))"
        using True by (simp add: n2pRepl_def seenOf_def)
      show ?thesis
        using Cons.IH[OF D] True Match pos
        by (simp add: step segName_Match positionRepl_def case_prod_unfold)
    next
      case False
      then have pos: "positionOf D ?name = Suc (length acc)"
        using D e by (simp add: positionOf_append_new)
      have step: "n2pRepl named m (seenOf acc, map (lookupArg named) acc, of_nat (length acc))
                    = (''$'' @ fmt_d (of_nat (length acc) + 1),
                       (seenOf (acc @ [?name]), map (lookupArg named) (acc @ [?name]),
                        of_nat (length (acc @ [?name]))))"
        using False seenOf_new[OF False] by (simp add: n2pRepl_def seenOf_def Let_def)
      show ?thesis
        using Cons.IH[OF D] False Match pos
        by (simp add: step segName_Match positionRepl_def case_prod_unfold add.commute)
    qed
  qed
qed

lemma seenOf_Nil: "seenOf [] = Map.empty"
  by (simp add: seenOf_def)

lemma namedToPositional_nonempty:
  assumes "named \<noteq> Map.empty"
  shows "namedToPositional q named
           = (positionalText q, map (lookupArg named) (firstOccurrences (markerNames q)))"
proof -
  let ?segs = "findAll (CHR ''@'') isWord q"
  let ?D = "firstOccurrences (markerNames q)"
  have D: "?D = firstsFrom [] (concat (map segName ?segs)) @ []"
    by (simp add: firstOccurrences_def markerNames_def)
  have "replaceSegs (n2pRepl named) ?segs (Map.empty, [], 0)
          = (fst (replaceSegs (positionRepl ?D) ?segs ()),
             (seenOf ?D, map (lookupArg named) ?D, of_nat (length ?D)))"
    using n2p_scan[OF D, of named] by (simp add: seenOf_Nil firstOccurrences_def markerNames_def)
  then show ?thesis
    using assms
    by (simp add: namedToPositional_def ReplaceAllStringFunc_def namedParamRe_def positionalText_def)
qed

lemma replaceSegs_no_match:
  "concat (map segName segs) = [] \<Longrightarrow>
     fst (replaceSegs f segs st) = concat (map (\<lambda>s. case s of Lit c \<Rightarrow> [c] | Match m \<Rightarrow> m) segs)"
proof (induction segs arbitrary: st)
  case Nil
  then show ?case by simp
next
  case (Cons s segs)
  then show ?case by (cases s) (simp_all add: segName_Lit segName_Match case_prod_unfold)
qed

lemma findAll_unsegs:
  "concat (map (\<lambda>s. case s of Lit c \<Rightarrow> [c] | Match m \<Rightarrow> m) (findAll sg cls s)) = s"
  by (induction sg cls s rule: findAll.induct) simp_all

lemma positionalText_no_names: "markerNames q = [] \<Longrightarrow> positionalText q = q"
  by (simp add: positionalText_def ReplaceAllStringFunc_def namedParamRe_def markerNames_def
      replaceSegs_no_match findAll_unsegs)

text \<open>
  Claim C4. For every SQL text \<open>q\<close> and every mapping \<open>named\<close> that has an entry for every
  name marked in \<open>q\<close>, the conversion returns \<open>positionalText q\<close>, the text in which every
  occurrence of a marker \<open>@name\<close> is replaced by \<open>$k\<close> where \<open>k\<close> is the position of the
  name among the distinct names of \<open>q\<close> in order of first occurrence, and the values of
  those names in the same order, one per distinct name. The result is a function of the
  text and of the entries of the mapping alone.
\<close>

theorem C4_named_to_positional:
  assumes "set (markerNames q) \<subseteq> dom named"
  shows "namedToPositional q named
           = (positionalText q, map (\<lambda>n. the (named n)) (firstOccurrences (markerNames q)))
         \<and> length (snd (namedToPositional q named)) = card (set (markerNames q))
         \<and> NamedToPositional q named = namedToPositional q named"
proof -
  have vals: "map (lookupArg named) (firstOccurrences (markerNames q))
                = map (\<lambda>n. the (named n)) (firstOccurrences (markerNames q))"
    using assms by (auto simp: lookupArg_def firstOccurrences_set split: option.splits)
  have main: "namedToPositional q named
           = (positionalText q, map (\<lambda>n. the (named n)) (firstOccurrences (markerNames q)))"
  proof (cases "named = Map.empty")
    case True
    with assms have n: "markerNames q = []" by simp
    show ?thesis
      using True n by (simp add: namedToPositional_def positionalText_no_names firstOccurrences_def)
  next
    case False
    then show ?thesis by (simp add: namedToPositional_nonempty vals)
  qed
  show ?thesis
    unfolding main by (simp add: firstOccurrences_length NamedToPositional_def main)
qed

theorem C4_named_to_positional_witness:
  "set (markerNames ''a = @id OR b = @id'') \<subseteq> dom [''id'' \<mapsto> VInt 42]
   \<and> namedToPositional ''a = @id OR b = @id'' [''id'' \<mapsto> VInt 42]
       = (''a = $1 OR b = $1'', [VInt 42])"
proof -
  have names: "markerNames ''a = @id OR b = @id'' = [''id'', ''id'']"
    by (simp add: markerNames_def segName_def isWord_def)
  have cover: "set (markerNames ''a = @id OR b = @id'') \<subseteq> dom [''id'' \<mapsto> VInt 42]"
    by (simp add: names)
  have ptext: "positionalText ''a = @id OR b = @id'' = ''a = $1 OR b = $1''"
    by (simp add: positionalText_def names firstOccurrences_def ReplaceAllStringFunc_def
        namedParamRe_def positionRepl_def positionOf_def isWord_def fmt_d_def showInt_def
        showNat.simps)
  show ?thesis
    using cover C4_named_to_positional[OF cover]
    by (simp add: ptext names firstOccurrences_def)
qed

text \<open>
  Claim C1, as amended. The conversion has no error result. For a text with a marker
  \<open>@name\<close> whose name has no entry in the mapping: if the mapping is empty, the text is
  returned unchanged, the marker left in place, with no values; if the mapping is not
  empty, the marker is converted like every other one and the nil value is bound at its
  position.
\<close>

theorem C1_missing_name_is_not_an_error:
  assumes "n \<in> set (markerNames q)" and "named n = None"
  shows "(named = Map.empty \<longrightarrow> namedToPositional q named = (q, []))
       \<and> (named \<noteq> Map.empty \<longrightarrow>
            namedToPositional q named
              = (positionalText q, map (lookupArg named) (firstOccurrences (markerNames q)))
            \<and> positionOf (firstOccurrences (markerNames q)) n - 1
                < length (snd (namedToPositional q named))
            \<and> snd (namedToPositional q named) ! (positionOf (firstOccurrences (markerNames q)) n - 1)
                = VNil)"
proof -
  have mem: "n \<in> set (firstOccurrences (markerNames q))"
    using assms(1) by (simp add: firstOccurrences_set)
  from positionOf_nth[OF mem]
  have p: "positionOf (firstOccurrences (markerNames q)) n - 1 < length (firstOccurrences (markerNames q))"
    and v: "firstOccurrences (markerNames q) ! (positionOf (firstOccurrences (markerNames q)) n - 1) = n"
    by simp_all
  have nil: "lookupArg named n = VNil"
    using assms(2) by (simp add: lookupArg_def)
  show ?thesis
    using p v nil by (simp add: namedToPositional_nonempty) (simp add: namedToPositional_def)
qed

theorem C1_missing_name_is_not_an_error_witness:
  "''id'' \<in> set (markerNames ''a = @id'') \<and> [''x'' \<mapsto> VInt 1] ''id'' = None
   \<and> namedToPositional ''a = @id'' [''x'' \<mapsto> VInt 1] = (''a = $1'', [VNil])"
proof -
  have names: "markerNames ''a = @id'' = [''id'']"
    by (simp add: markerNames_def segName_def isWord_def)
  have h1: "''id'' \<in> set (markerNames ''a = @id'')" by (simp add: names)
  have h2: "[''x'' \<mapsto> VInt 1] ''id'' = None" by simp
  have ptext: "positionalText ''a = @id'' = ''a = $1''"
    by (simp add: positionalText_def names firstOccurrences_def ReplaceAllStringFunc_def
        namedParamRe_def positionRepl_def positionOf_def isWord_def fmt_d_def showInt_def
        showNat.simps)
  show ?thesis
    using h1 h2 C1_missing_name_is_not_an_error[of "''id''" "''a = @id''" "[''x'' \<mapsto> VInt 1]"]
    by (simp add: ptext names firstOccurrences_def lookupArg_def)
qed

text \<open>
  Claim C1 as stated fails: with an empty mapping the text comes back with \<open>@id\<close> left in
  place, and with a mapping that lacks \<open>id\<close> the marker becomes \<open>$1\<close> bound to nil; in
  both cases a result is returned and no error is reported.
\<close>

theorem C1_counterexample:
  "namedToPositional ''a = @id'' Map.empty = (''a = @id'', [])
   \<and> namedToPositional ''a = @id'' [''x'' \<mapsto> VInt 1] = (''a = $1'', [VNil])"
  by (simp add: namedToPositional_def ReplaceAllStringFunc_def namedParamRe_def isWord_def
      n2pRepl_def lookupArg_def fmt_d_def showInt_def showNat.simps)

end
